theory Spec2Isabelle
  imports Main "HOL-Library.AList" "HOL-Library.Sublist" "HOL-Library.Multiset"
begin

section \<open>Strings, numbers and paths\<close>

text \<open>
  The Go standard-library functions that \<open>cmd/init.go\<close> and the \<open>paths\<close> package call,
  on byte strings: \<open>strconv.Itoa\<close>, \<open>strconv.Atoi\<close> (with a 64-bit \<open>int\<close>),
  \<open>strings.Join\<close> with the separator \<open>/\<close>, \<open>filepath.Clean\<close> and \<open>filepath.Join\<close>
  (Unix).
\<close>

definition newline :: char where
  "newline = CHR 0x0A"

definition digit_char :: "nat \<Rightarrow> char" where
  "digit_char d = ''0123456789'' ! d"

function itoa_nat :: "nat \<Rightarrow> string" where
  "itoa_nat n = (if n < 10 then [digit_char n] else itoa_nat (n div 10) @ [digit_char (n mod 10)])"
  by pat_completeness auto
termination
  by (relation "measure (\<lambda>n. n)") auto

declare itoa_nat.simps [simp del]

definition Itoa :: "int \<Rightarrow> string" where
  "Itoa i = (if i < 0 then CHR ''-'' # itoa_nat (nat (- i)) else itoa_nat (nat i))"

definition is_digit :: "char \<Rightarrow> bool" where
  "is_digit c = (c \<in> set ''0123456789'')"

definition digit_val :: "char \<Rightarrow> nat" where
  "digit_val c = of_char c - 48"

text \<open>
  \<open>strconv.Atoi\<close>: an optional sign, then at least one decimal digit and nothing else;
  a value outside the 64-bit range is an error. \<open>None\<close> is the error return.
\<close>

definition Atoi :: "string \<Rightarrow> int option" where
  "Atoi s =
     (let neg = (s \<noteq> [] \<and> hd s = CHR ''-'');
          ds = (if s \<noteq> [] \<and> (hd s = CHR ''-'' \<or> hd s = CHR ''+'') then tl s else s)
      in if ds = [] \<or> \<not> list_all is_digit ds then None
         else (let v = int (foldl (\<lambda>n c. 10 * n + digit_val c) 0 ds);
                   r = (if neg then - v else v)
               in if r < - (2 ^ 63) \<or> 2 ^ 63 - 1 < r then None else Some r))"

fun split_path :: "string \<Rightarrow> string list" where
  "split_path [] = [[]]"
| "split_path (c # cs) =
     (if c = CHR ''/'' then [] # split_path cs
      else (case split_path cs of [] \<Rightarrow> [[c]] | w # ws \<Rightarrow> (c # w) # ws))"

fun join_slash :: "string list \<Rightarrow> string" where
  "join_slash [] = []"
| "join_slash [x] = x"
| "join_slash (x # y # ys) = x @ CHR ''/'' # join_slash (y # ys)"

text \<open>
  The loop of \<open>filepath.Clean\<close>, element by element: empty elements and \<open>.\<close> are dropped,
  \<open>..\<close> removes the element before it when there is one to remove, is dropped at the root,
  and is kept at the front of a relative path.
\<close>

fun clean_elems :: "bool \<Rightarrow> string list \<Rightarrow> string list \<Rightarrow> string list" where
  "clean_elems rooted acc [] = acc"
| "clean_elems rooted acc (c # cs) =
     (if c = [] \<or> c = ''.'' then clean_elems rooted acc cs
      else if c = ''..'' then
        (if acc \<noteq> [] \<and> last acc \<noteq> ''..'' then clean_elems rooted (butlast acc) cs
         else if rooted then clean_elems rooted acc cs
         else clean_elems rooted (acc @ [''..'']) cs)
      else clean_elems rooted (acc @ [c]) cs)"

definition is_rooted :: "string \<Rightarrow> bool" where
  "is_rooted p = (p \<noteq> [] \<and> hd p = CHR ''/'')"

definition Clean :: "string \<Rightarrow> string" where
  "Clean p =
     (if p = [] then ''.''
      else (let es = clean_elems (is_rooted p) [] (split_path p)
            in if is_rooted p then CHR ''/'' # join_slash es
               else if es = [] then ''.'' else join_slash es))"

definition Join :: "string list \<Rightarrow> string" where
  "Join elem =
     (case dropWhile (\<lambda>e. e = []) elem of
        [] \<Rightarrow> []
      | r # rs \<Rightarrow> Clean (join_slash (r # rs)))"

section \<open>Package paths\<close>

definition DockerCompose :: "string \<Rightarrow> string" where
  "DockerCompose rootPath = Join [rootPath, ''docker-compose.yml'']"

definition Dockerfile :: "string \<Rightarrow> string" where
  "Dockerfile rootPath = Join [rootPath, ''Dockerfile'']"

definition Scripts :: "string \<Rightarrow> string" where
  "Scripts rootPath = Join [rootPath, ''src/scripts'']"

section \<open>The process and its surroundings\<close>

text \<open>
  Errors are values: \<open>errors.New\<close>, \<open>errors.Wrap\<close>/\<open>Wrapf\<close> around a cause, and the
  causes that come from the operating system or a collaborator.
\<close>

datatype error = Cause string | New string | Wrap error string

text \<open>
  How the process ends: \<open>Run\<close> returns, \<open>os.Exit(0)\<close>, \<open>log.Fatal\<close> (which exits with
  status 1), or a run-time panic.
\<close>

datatype outcome = Done | Exit0 | Fatal error | Panic string

datatype node = Dir | File string

type_synonym path = "string list"

type_synonym tree = "(path \<times> node) list"

text \<open>
  The package-level variables bound to the command-line flags.
\<close>

record flags =
  author :: string
  license :: string
  language :: string
  force :: bool
  nonInteractive :: bool

text \<open>
  What the code reads from outside itself and cannot change:
  \<^item> \<open>cwd\<close> is the working directory, against which the operating system resolves a
    relative path; \<open>getwd_ok\<close> says whether \<open>os.Getwd\<close> succeeds;
  \<^item> \<open>denied\<close> are the paths the operating system refuses to create or write;
  \<^item> \<open>reads k\<close> is what the \<open>k\<close>-th call of \<open>reader.ReadString\<close> on standard input
    returns (the text up to and including the line end; the empty string once the input
    is exhausted);
  \<^item> \<open>Chomp\<close> is \<open>utils.Chomp\<close>, \<open>Supported\<close> is \<open>languages.Supported\<close>, \<open>InitFiles\<close> is
    \<open>languages.InitFiles\<close> (a missing language has no entries), \<open>render\<close> is the template
    engine behind \<open>templates.Write\<close> (\<open>None\<close> when it fails): all four live outside the
    files modelled here;
  \<^item> \<open>now_year\<close> is \<open>time.Now().Year()\<close>;
  \<^item> \<open>git_found\<close> says whether \<open>exec.LookPath("git")\<close> succeeds, \<open>git_status args\<close>
    whether the git process run with \<open>args\<close> exits with status 0;
  \<^item> \<open>config_writable\<close> says whether \<open>utils.WriteConfig\<close> succeeds;
  \<^item> \<open>paths_root\<close> is the argument \<open>rootPath\<close> of \<open>paths.Dockerfile\<close> and
    \<open>paths.DockerCompose\<close> at their calls in \<open>createSkeleton\<close>, which pass none;
  \<^item> \<open>range_dirs\<close> and \<open>range_files\<close> give the order in which a \<open>range\<close> loop visits
    the entries of a Go map, which the language leaves open.
\<close>

record env =
  cwd :: string
  getwd_ok :: bool
  denied :: "path \<Rightarrow> bool"
  reads :: "nat \<Rightarrow> string"
  Chomp :: "string \<Rightarrow> string"
  Supported :: "string list"
  InitFiles :: "string \<Rightarrow> (string \<times> string) list"
  render :: "string \<Rightarrow> (string \<times> string) list \<Rightarrow> string option"
  now_year :: int
  git_found :: bool
  git_status :: "string list \<Rightarrow> bool"
  config_writable :: bool
  paths_root :: string
  range_dirs :: "(string \<times> bool) list \<Rightarrow> (string \<times> bool) list"
  range_files :: "(string \<times> string) list \<Rightarrow> (string \<times> string) list"

text \<open>
  What the code changes:
  \<^item> \<open>viper\<close> is the process-wide configuration state (\<open>viper.Set\<close>, \<open>viper.GetString\<close>);
  \<^item> \<open>store\<close> is the durable configuration store, \<open>None\<close> until it is written;
  \<^item> \<open>fs\<close> is the file tree, keyed by absolute paths as lists of elements;
  \<^item> \<open>rpos\<close> counts the reads made on standard input;
  \<^item> \<open>out\<close> is what \<open>fmt.Print\<close> and friends wrote, \<open>logs\<close> what \<open>log.Println\<close> wrote;
  \<^item> \<open>git\<close> is the argument lists of the git processes that were run, in order.
\<close>

record world =
  viper :: "string \<Rightarrow> string option"
  store :: "(string \<Rightarrow> string option) option"
  fs :: tree
  rpos :: nat
  out :: "string list"
  logs :: "string list"
  git :: "string list list"

definition GetString :: "world \<Rightarrow> string \<Rightarrow> string" where
  "GetString s key = (case viper s key of None \<Rightarrow> [] | Some v \<Rightarrow> v)"

definition viper_Set :: "string \<Rightarrow> string \<Rightarrow> world \<Rightarrow> world" where
  "viper_Set key v s = s\<lparr>viper := (viper s)(key \<mapsto> v)\<rparr>"

definition Print :: "string \<Rightarrow> world \<Rightarrow> world" where
  "Print text s = s\<lparr>out := out s @ [text]\<rparr>"

definition Println :: "string list \<Rightarrow> world \<Rightarrow> world" where
  "Println items s = (case items of
       [] \<Rightarrow> Print [newline] s
     | x # xs \<Rightarrow> Print (foldl (\<lambda>a b. a @ '' '' @ b) x xs @ [newline]) s)"

definition log_Println :: "string \<Rightarrow> world \<Rightarrow> world" where
  "log_Println text s = s\<lparr>logs := logs s @ [text]\<rparr>"

text \<open>
  Modelled from the spec: \<open>utils.Contains\<close> is absent from the sources; the license
  supplied by flag "must exactly match one of the enum values (case-sensitive)".
\<close>

definition Contains :: "string list \<Rightarrow> string \<Rightarrow> bool" where
  "Contains xs x = (x \<in> set xs)"

subsection \<open>The file tree\<close>

definition resolve :: "env \<Rightarrow> string \<Rightarrow> path" where
  "resolve e p = clean_elems True [] (split_path (if is_rooted p then p else cwd e @ CHR ''/'' # p))"

definition node_at :: "tree \<Rightarrow> path \<Rightarrow> node option" where
  "node_at t p = (if p = [] then Some Dir else map_of t p)"

text \<open>
  \<open>os.MkdirAll\<close>: nothing to do for a directory that exists, an error for a file in its
  place, otherwise the parent first and then the directory itself. What was created
  before an error stays.
\<close>

function mkdir_all :: "env \<Rightarrow> path \<Rightarrow> tree \<Rightarrow> error option \<times> tree" where
  "mkdir_all e p t =
     (case node_at t p of
        Some Dir \<Rightarrow> (None, t)
      | Some (File c) \<Rightarrow> (Some (Cause ''not a directory''), t)
      | None \<Rightarrow>
          (case mkdir_all e (butlast p) t of
             (Some err, t') \<Rightarrow> (Some err, t')
           | (None, t') \<Rightarrow>
               if denied e p then (Some (Cause ''permission denied''), t')
               else (None, AList.update p Dir t')))"
  by pat_completeness auto
termination
  by (relation "measure (\<lambda>(e, p, t). length p)") (auto simp: node_at_def split: if_splits)

declare mkdir_all.simps [simp del]

text \<open>
  Creating or truncating a file and writing its content: the parent must be a directory,
  the path itself must not be one, and the operating system must allow it.
\<close>

definition write_at :: "env \<Rightarrow> path \<Rightarrow> string \<Rightarrow> tree \<Rightarrow> error option \<times> tree" where
  "write_at e p c t =
     (if node_at t p = Some Dir then (Some (Cause ''is a directory''), t)
      else if node_at t (butlast p) \<noteq> Some Dir then (Some (Cause ''no such file or directory''), t)
      else if denied e p then (Some (Cause ''permission denied''), t)
      else (None, AList.update p (File c) t))"

definition MkdirAll :: "env \<Rightarrow> string \<Rightarrow> world \<Rightarrow> error option \<times> world" where
  "MkdirAll e dir s = (case mkdir_all e (resolve e dir) (fs s) of (r, t) \<Rightarrow> (r, s\<lparr>fs := t\<rparr>))"

definition Create :: "env \<Rightarrow> string \<Rightarrow> world \<Rightarrow> error option \<times> world" where
  "Create e name s = (case write_at e (resolve e name) [] (fs s) of (r, t) \<Rightarrow> (r, s\<lparr>fs := t\<rparr>))"

definition ReadDir :: "env \<Rightarrow> string \<Rightarrow> world \<Rightarrow> error + (string \<times> node) list" where
  "ReadDir e dir s =
     (let p = resolve e dir
      in if node_at (fs s) p = Some Dir
         then Inr (map (\<lambda>(q, n). (last q, n)) (filter (\<lambda>(q, n). q \<noteq> [] \<and> butlast q = p) (fs s)))
         else Inl (Cause ''not a directory''))"

definition Getwd :: "env \<Rightarrow> error + string" where
  "Getwd e = (if getwd_ok e then Inr (cwd e) else Inl (Cause ''getwd failed''))"

text \<open>
  Modelled from the spec: \<open>templates.Write\<close> is absent from the sources; the spec has it
  "render the named template against [a] data record and write the result to the
  destination path, overwriting if present", with rendering errors "surfaced from the
  rendering collaborator".
\<close>

definition templates_Write ::
  "env \<Rightarrow> string \<Rightarrow> string \<Rightarrow> (string \<times> string) list \<Rightarrow> world \<Rightarrow> error option \<times> world" where
  "templates_Write e src dest data s =
     (case render e src data of
        None \<Rightarrow> (Some (Cause ''template error''), s)
      | Some text \<Rightarrow>
          (case write_at e (resolve e dest) text (fs s) of (r, t) \<Rightarrow> (r, s\<lparr>fs := t\<rparr>)))"

text \<open>
  Modelled from the spec: \<open>utils.WriteConfig\<close> is absent from the sources; the spec has
  it "persist ProjectConfig to the durable store", and it may fail.
\<close>

definition WriteConfig :: "env \<Rightarrow> world \<Rightarrow> error option \<times> world" where
  "WriteConfig e s =
     (if config_writable e then (None, s\<lparr>store := Some (viper s)\<rparr>)
      else (Some (Cause ''config not written''), s))"

section \<open>cmd/init.go\<close>

subsection \<open>getInput and the prompt loops\<close>

definition getInput :: "env \<Rightarrow> flags \<Rightarrow> world \<Rightarrow> (outcome + string) \<times> world" where
  "getInput e fl s =
     (if nonInteractive fl
      then (Inl (Fatal (New (newline # ''error: input required in non-interactive mode''))), s)
      else (Inr (Chomp e (reads e (rpos s))), s\<lparr>rpos := Suc (rpos s)\<rparr>))"

text \<open>
  A prompt loop has no bound on its iterations: \<open>None\<close> is the run that never leaves it.
\<close>

partial_function (option) confirmLoop ::
  "env \<Rightarrow> flags \<Rightarrow> world \<Rightarrow> ((outcome + unit) \<times> world) option" where
  "confirmLoop e fl s =
     (case getInput e fl s of
        (Inl oc, s1) \<Rightarrow> Some (Inl oc, s1)
      | (Inr input, s1) \<Rightarrow>
          if input = ''y'' then Some (Inr (), s1)
          else if input = ''n'' \<or> input = [] then Some (Inl Exit0, s1)
          else confirmLoop e fl (Print ''Please answer [y/N]: '' s1))"

definition valid_choice :: "nat \<Rightarrow> string \<Rightarrow> bool" where
  "valid_choice n input =
     (case Atoi input of None \<Rightarrow> False | Some choice \<Rightarrow> 0 < choice \<and> choice \<le> int n)"

partial_function (option) licenseLoop ::
  "env \<Rightarrow> flags \<Rightarrow> string list \<Rightarrow> string \<Rightarrow> world \<Rightarrow> ((outcome + string) \<times> world) option" where
  "licenseLoop e fl licenses choices s =
     (case getInput e fl (Print (''Choose '' @ choices @ '': '') s) of
        (Inl oc, s1) \<Rightarrow> Some (Inl oc, s1)
      | (Inr input, s1) \<Rightarrow>
          (case Atoi input of
             None \<Rightarrow> licenseLoop e fl licenses choices s1
           | Some choice \<Rightarrow>
               if 0 < choice \<and> choice \<le> int (length licenses)
               then Some (Inr (licenses ! nat (choice - 1)), s1)
               else licenseLoop e fl licenses choices s1))"

partial_function (option) languageLoop ::
  "env \<Rightarrow> flags \<Rightarrow> string list \<Rightarrow> string \<Rightarrow> world \<Rightarrow> ((outcome + string) \<times> world) option" where
  "languageLoop e fl supported choices s =
     (case getInput e fl (Print (''Choose '' @ choices @ '' [1]: '') s) of
        (Inl oc, s1) \<Rightarrow> Some (Inl oc, s1)
      | (Inr input, s1) \<Rightarrow>
          if input = [] then
            (case supported of
               [] \<Rightarrow> Some (Inl (Panic ''index out of range''), s1)
             | l # ls \<Rightarrow> Some (Inr l, s1))
          else
            (case Atoi input of
               None \<Rightarrow> languageLoop e fl supported choices s1
             | Some choice \<Rightarrow>
                 if 0 < choice \<and> choice \<le> int (length supported)
                 then Some (Inr (supported ! nat (choice - 1)), s1)
                 else languageLoop e fl supported choices s1))"

declare confirmLoop.simps [code]
declare licenseLoop.simps [code]
declare languageLoop.simps [code]

text \<open>
  The menu text \<open>1, 2, ..., n\<close>: each number followed by a comma and a space, and the last
  two bytes cut off, which panics when there is nothing to cut.
\<close>

definition choices_text :: "nat \<Rightarrow> string option" where
  "choices_text n =
     (let choices = concat (map (\<lambda>i. Itoa (int i + 1) @ '', '') [0..<n])
      in if length choices < 2 then None else Some (take (length choices - 2) choices))"

definition print_menu :: "string list \<Rightarrow> world \<Rightarrow> world" where
  "print_menu items s =
     foldl (\<lambda>s' i. Println [Itoa (int i + 1), ''-'', items ! i] s') s [0..<length items]"

definition licenses :: "string list" where
  "licenses = [''MIT'', ''BSD-3-Clause'', ''None'']"

subsection \<open>createSkeleton\<close>

definition directories :: "(string \<times> bool) list" where
  "directories =
     [(''.ccds'', False),
      (''data'', False),
      (''data/external'', True),
      (''data/interim'', True),
      (''data/processed'', True),
      (''data/raw'', True),
      (''docs'', True),
      (''models'', True),
      (''notebooks'', True),
      (''references'', True),
      (''reports'', False),
      (''reports/figures'', True),
      (''src'', False),
      (''src/datasets'', True),
      (''src/features'', True),
      (''src/models'', True),
      (''src/scripts'', True),
      (''src/visualization'', True)]"

text \<open>
  The map \<open>files\<close> of \<open>createSkeleton\<close>, from template name to destination: the three
  entries of the literal, then the entries of the language, a later entry replacing an
  earlier one with the same key.
\<close>

definition universal_files :: "env \<Rightarrow> string \<Rightarrow> string \<Rightarrow> (string \<times> string) list" where
  "universal_files e projectRoot lang =
     [(''gitignore/'' @ lang, ''.gitignore''),
      (''docker/Dockerfile'', Join [projectRoot, Dockerfile (paths_root e)]),
      (''docker/docker-compose.yml'', Join [projectRoot, DockerCompose (paths_root e)])]"

definition files :: "env \<Rightarrow> string \<Rightarrow> string \<Rightarrow> (string \<times> string) list" where
  "files e projectRoot lang =
     foldl (\<lambda>m (k, v). AList.update k v m) (universal_files e projectRoot lang)
       (InitFiles e lang)"

fun make_dirs :: "env \<Rightarrow> (string \<times> bool) list \<Rightarrow> world \<Rightarrow> error option \<times> world" where
  "make_dirs e [] s = (None, s)"
| "make_dirs e ((dir, keep) # rest) s =
     (case MkdirAll e dir s of
        (Some err, s1) \<Rightarrow> (Some (Wrap err (''failed to create directory '' @ dir)), s1)
      | (None, s1) \<Rightarrow>
          if keep then
            (let path = Join [dir, ''.gitkeep'']
             in case Create e path s1 of
                  (Some err, s2) \<Rightarrow> (Some (Wrap err (''failed to create file '' @ path)), s2)
                | (None, s2) \<Rightarrow> make_dirs e rest s2)
          else make_dirs e rest s1)"

fun write_files :: "env \<Rightarrow> (string \<times> string) list \<Rightarrow> world \<Rightarrow> error option \<times> world" where
  "write_files e [] s = (None, s)"
| "write_files e ((src, dest) # rest) s =
     (case templates_Write e src dest [] s of
        (Some err, s1) \<Rightarrow> (Some err, s1)
      | (None, s1) \<Rightarrow> write_files e rest s1)"

definition createSkeleton :: "env \<Rightarrow> world \<Rightarrow> error option \<times> world" where
  "createSkeleton e s =
     (let projectRoot = GetString s ''ProjectRoot'';
          lang = GetString s ''PrimaryLanguage''
      in case make_dirs e (range_dirs e directories) s of
           (Some err, s1) \<Rightarrow> (Some err, s1)
         | (None, s1) \<Rightarrow>
             (case write_files e (range_files e (files e projectRoot lang)) s1 of
                (Some err, s2) \<Rightarrow> (Some err, s2)
              | (None, s2) \<Rightarrow> WriteConfig e s2))"

subsection \<open>writeLicense\<close>

definition writeLicense :: "env \<Rightarrow> string \<Rightarrow> string \<Rightarrow> world \<Rightarrow> error option \<times> world" where
  "writeLicense e author' license' s =
     (if license' = ''None'' then (None, s)
      else templates_Write e (''licenses/'' @ license') ''LICENSE''
             [(''Year'', Itoa (now_year e)), (''Author'', author')] s)"

subsection \<open>initRepo\<close>

text \<open>
  \<open>exec.Command("git", args...).Run()\<close>: the process is run and its exit status read.
\<close>

definition git_run :: "env \<Rightarrow> string list \<Rightarrow> world \<Rightarrow> bool \<times> world" where
  "git_run e args s = (git_status e args, s\<lparr>git := git s @ [args]\<rparr>)"

definition gitAdd :: "env \<Rightarrow> string list \<Rightarrow> world \<Rightarrow> bool \<times> world" where
  "gitAdd e paths s = git_run e (''add'' # paths) s"

definition gitCommit :: "env \<Rightarrow> string \<Rightarrow> world \<Rightarrow> bool \<times> world" where
  "gitCommit e message s = git_run e [''commit'', ''-m'', message] s"

definition commit_steps :: "env \<Rightarrow> world \<Rightarrow> world" where
  "commit_steps e s0 =
     (let s = snd (gitAdd e [''.ccds''] s0);
          s = snd (gitCommit e ''Add ccds config directory'' s);
          s = snd (gitAdd e [''.gitignore'', ''LICENSE''] s);
          s = snd (gitCommit e ''Add standard repo files'' s);
          s = snd (gitAdd e [''Dockerfile'', ''docker-compose.yml''] s);
          s = snd (gitCommit e ''Add Docker configuration for Jupyter'' s);
          s = snd (gitAdd e [''data''] s);
          s = snd (gitCommit e ''Add directory for storing datasets'' s);
          s = snd (gitAdd e [''docs''] s);
          s = snd (gitCommit e ''Add directory for storing documentation'' s);
          s = snd (gitAdd e [''models''] s);
          s = snd (gitCommit e ''Add directory for storing models'' s);
          s = snd (gitAdd e [''notebooks''] s);
          s = snd (gitCommit e ''Add directory for storing notebooks'' s);
          s = snd (gitAdd e [''references''] s);
          s = snd (gitCommit e ''Add directory for storing references'' s);
          s = snd (gitAdd e [''reports''] s);
          s = snd (gitCommit e ''Add directory for storing reports'' s);
          s = snd (gitAdd e [''src''] s);
          s = snd (gitCommit e ''Add directory for storing source code'' s)
      in s)"

definition initRepo :: "env \<Rightarrow> world \<Rightarrow> error option \<times> world" where
  "initRepo e s =
     (case ReadDir e ''./'' s of
        Inl err \<Rightarrow> (Some (Wrap err ''failed to detect existing git repo''), s)
      | Inr entries \<Rightarrow>
          if list_ex (\<lambda>(name, n). name = ''.git'' \<and> n = Dir) entries
          then (Some (New ''git repo already exists''), s)
          else if \<not> git_found e
          then (Some (Wrap (Cause ''executable file not found'') ''git not found in path''), s)
          else (case git_run e [''init''] s of
                  (False, s1) \<Rightarrow> (Some (Wrap (Cause ''exit status'') ''failed to initialize git repo''), s1)
                | (True, s1) \<Rightarrow> (None, commit_steps e s1)))"

subsection \<open>initCmd.Run\<close>

definition andThen ::
  "((outcome + 'a) \<times> world) option \<Rightarrow> ('a \<Rightarrow> world \<Rightarrow> ((outcome + 'b) \<times> world) option)
     \<Rightarrow> ((outcome + 'b) \<times> world) option" where
  "andThen m f =
     (case m of
        None \<Rightarrow> None
      | Some (Inl oc, s) \<Rightarrow> Some (Inl oc, s)
      | Some (Inr x, s) \<Rightarrow> f x s)"

text \<open>Lines 38 to 70: the gate, the working directory and the emptiness check.\<close>

definition checkDirectory :: "env \<Rightarrow> flags \<Rightarrow> world \<Rightarrow> ((outcome + string) \<times> world) option" where
  "checkDirectory e fl s =
     (if GetString s ''ProjectRoot'' \<noteq> []
      then Some (Inl (Fatal (New ''Project has already been initialized'')), s)
      else (case Getwd e of
              Inl err \<Rightarrow> Some (Inl (Fatal err), s)
            | Inr projectRoot \<Rightarrow>
                (case ReadDir e projectRoot s of
                   Inl err \<Rightarrow> Some (Inl (Fatal err), s)
                 | Inr entries \<Rightarrow>
                     andThen
                       (if 0 < length entries \<and> \<not> force fl
                        then confirmLoop e fl
                               (Print ''This directory is not empty, initialize anyways? [y/N]: '' s)
                        else Some (Inr (), s))
                       (\<lambda>_ s1. Some (Inr projectRoot, viper_Set ''ProjectRoot'' projectRoot s1)))))"

text \<open>Lines 72 to 75.\<close>

definition resolveAuthor :: "env \<Rightarrow> flags \<Rightarrow> world \<Rightarrow> ((outcome + string) \<times> world) option" where
  "resolveAuthor e fl s =
     (if author fl = []
      then Some (getInput e fl (Print ''Author (Your name or organization/company/team): '' s))
      else Some (Inr (author fl), s))"

text \<open>Lines 77 to 102.\<close>

definition resolveLicense :: "env \<Rightarrow> flags \<Rightarrow> world \<Rightarrow> ((outcome + string) \<times> world) option" where
  "resolveLicense e fl s =
     (if license fl = [] then
        (case choices_text (length licenses) of
           None \<Rightarrow> Some (Inl (Panic ''slice bounds out of range''), s)
         | Some choices \<Rightarrow>
             licenseLoop e fl licenses choices
               (print_menu licenses (Println [''Select your license: ''] s)))
      else if \<not> Contains licenses (license fl)
      then Some (Inl (Fatal (New ''unknown license'')), s)
      else Some (Inr (license fl), s))"

text \<open>Lines 104 to 134.\<close>

definition resolveLanguage :: "env \<Rightarrow> flags \<Rightarrow> world \<Rightarrow> ((outcome + string) \<times> world) option" where
  "resolveLanguage e fl s =
     (if language fl = [] then
        (case choices_text (length (Supported e)) of
           None \<Rightarrow> Some (Inl (Panic ''slice bounds out of range''), s)
         | Some choices \<Rightarrow>
             languageLoop e fl (Supported e) choices
               (print_menu (Supported e) (Println [''Select your primary language: ''] s)))
      else if \<not> Contains (Supported e) (language fl)
      then Some (Inl (Fatal (New ''unknown language'')), s)
      else Some (Inr (language fl), s))"

text \<open>Lines 136 to 152: the configuration is set, then the three stages run in order.\<close>

definition scaffold :: "env \<Rightarrow> string \<Rightarrow> string \<Rightarrow> string \<Rightarrow> world \<Rightarrow> outcome \<times> world" where
  "scaffold e author' license' language' s0 =
     (let s = viper_Set ''Author'' author' s0;
          s = viper_Set ''License'' license' s;
          s = viper_Set ''PrimaryLanguage'' language' s;
          s = log_Println ''Creating project skeleton...'' s
      in case createSkeleton e s of
           (Some err, s1) \<Rightarrow> (Fatal err, s1)
         | (None, s1) \<Rightarrow>
             (case writeLicense e author' license' s1 of
                (Some err, s2) \<Rightarrow> (Fatal err, s2)
              | (None, s2) \<Rightarrow>
                  (case initRepo e (log_Println ''Initializing git repository...'' s2) of
                     (Some err, s3) \<Rightarrow> (Fatal err, s3)
                   | (None, s3) \<Rightarrow> (Done, s3))))"

definition resolveConfig ::
  "env \<Rightarrow> flags \<Rightarrow> world \<Rightarrow> ((outcome + string \<times> string \<times> string) \<times> world) option" where
  "resolveConfig e fl s =
     andThen (checkDirectory e fl s) (\<lambda>projectRoot s1.
       andThen (resolveAuthor e fl s1) (\<lambda>author' s2.
         andThen (resolveLicense e fl s2) (\<lambda>license' s3.
           andThen (resolveLanguage e fl s3) (\<lambda>language' s4.
             Some (Inr (author', license', language'), s4)))))"

definition Run :: "env \<Rightarrow> flags \<Rightarrow> world \<Rightarrow> (outcome \<times> world) option" where
  "Run e fl s =
     (case resolveConfig e fl s of
        None \<Rightarrow> None
      | Some (Inl oc, s1) \<Rightarrow> Some (oc, s1)
      | Some (Inr (author', license', language'), s1) \<Rightarrow>
          Some (scaffold e author' license' language' s1))"

section \<open>A concrete setting\<close>

text \<open>
  A project directory \<open>/proj\<close> on a machine where nothing is refused, git is installed,
  two languages are supported, and the template engine answers with the template name
  followed by the values of the data record. Standard input is exhausted from the start.
\<close>

definition env0 :: env where
  "env0 =
     \<lparr>cwd = ''/proj'', getwd_ok = True, denied = (\<lambda>p. False), reads = (\<lambda>k. []),
      Chomp = (\<lambda>x. takeWhile (\<lambda>c. c \<noteq> newline) x), Supported = [''python'', ''r''],
      InitFiles = (\<lambda>l. []), render = (\<lambda>src d. Some (src @ '':'' @ concat (map snd d))),
      now_year = 2026, git_found = True, git_status = (\<lambda>a. True), config_writable = True,
      paths_root = [], range_dirs = (\<lambda>x. x), range_files = (\<lambda>x. x)\<rparr>"

definition world0 :: world where
  "world0 =
     \<lparr>viper = Map.empty, store = None, fs = [([''proj''], Dir)], rpos = 0, out = [],
      logs = [], git = []\<rparr>"

definition flags0 :: flags where
  "flags0 =
     \<lparr>author = ''Ada'', license = ''MIT'', language = ''python'', force = True,
      nonInteractive = False\<rparr>"

definition license_next :: "string \<Rightarrow> world \<Rightarrow> world" where
  "license_next ch s = (Print (''Choose '' @ ch @ '': '') s)\<lparr>rpos := Suc (rpos s)\<rparr>"

definition env1 :: env where
  "env1 = env0\<lparr>reads := (\<lambda>k. if k = 1 then ''2'' @ [newline] else if k = 0 then ''two'' @ [newline] else [])\<rparr>"

definition same_disk :: "world \<Rightarrow> world \<Rightarrow> bool" where
  "same_disk s s' = (fs s' = fs s \<and> store s' = store s \<and> git s' = git s)"

definition stage_ok :: "world \<Rightarrow> (outcome + 'a) \<times> world \<Rightarrow> bool" where
  "stage_ok s r = (same_disk s (snd r) \<and> fst r \<noteq> Inl Done)"

definition only_fs :: "world \<Rightarrow> world \<Rightarrow> bool" where
  "only_fs s s' = (s' = s\<lparr>fs := fs s'\<rparr>)"

definition world1 :: world where
  "world1 = world0\<lparr>fs := [([''proj''], Dir), ([''proj'', ''data''], File [])]\<rparr>"


definition kind_kept :: "tree \<Rightarrow> tree \<Rightarrow> bool" where
  "kind_kept t t' =
     (\<forall>q. (node_at t q = Some Dir \<longrightarrow> node_at t' q = Some Dir) \<and>
          ((\<exists>c. node_at t q = Some (File c)) \<longrightarrow> (\<exists>c. node_at t' q = Some (File c))))"

definition gitkeep_path :: "env \<Rightarrow> string \<Rightarrow> path" where
  "gitkeep_path e d = resolve e (Join [d, ''.gitkeep''])"

definition dirs_done :: "env \<Rightarrow> (string \<times> bool) list \<Rightarrow> tree \<Rightarrow> bool" where
  "dirs_done e ds t =
     (\<forall>d keep. (d, keep) \<in> set ds \<longrightarrow>
        node_at t (resolve e d) = Some Dir \<and>
        (keep \<longrightarrow> \<not> denied e (gitkeep_path e d) \<and>
           node_at t (butlast (gitkeep_path e d)) = Some Dir \<and>
           (\<exists>c. node_at t (gitkeep_path e d) = Some (File c))))"

definition files_done :: "env \<Rightarrow> (string \<times> string) list \<Rightarrow> tree \<Rightarrow> bool" where
  "files_done e fl t =
     (\<forall>src dest. (src, dest) \<in> set fl \<longrightarrow>
        render e src [] \<noteq> None \<and> \<not> denied e (resolve e dest) \<and>
        node_at t (butlast (resolve e dest)) = Some Dir \<and>
        (\<exists>c. node_at t (resolve e dest) = Some (File c)))"

definition same_machine :: "env \<Rightarrow> env \<Rightarrow> bool" where
  "same_machine e e' =
     (cwd e' = cwd e \<and> denied e' = denied e \<and> render e' = render e \<and>
      InitFiles e' = InitFiles e \<and> paths_root e' = paths_root e \<and>
      config_writable e' = config_writable e)"

definition world2 :: world where
  "world2 = viper_Set ''PrimaryLanguage'' ''python'' (viper_Set ''ProjectRoot'' ''/proj'' world0)"

section \<open>Basic facts\<close>

lemma andThen_simps:
  "andThen None f = None"
  "andThen (Some (Inl oc, s)) f = Some (Inl oc, s)"
  "andThen (Some (Inr x, s)) f = f x s"
  by (simp_all add: andThen_def)

lemma env0_simps:
  "cwd env0 = ''/proj''" "getwd_ok env0" "\<not> denied env0 p" "reads env0 k = []"
  "Chomp env0 x = takeWhile (\<lambda>c. c \<noteq> newline) x" "Supported env0 = [''python'', ''r'']"
  "InitFiles env0 l = []" "render env0 src d = Some (src @ '':'' @ concat (map snd d))"
  "now_year env0 = 2026" "git_found env0" "git_status env0 a" "config_writable env0"
  "paths_root env0 = []" "range_dirs env0 ds = ds" "range_files env0 fls = fls"
  by (simp_all add: env0_def)

lemma git_run_git: "git (snd (git_run e args s)) = git s @ [args]"
  by (simp add: git_run_def)

lemma git_commit_steps:
  "git (commit_steps e s) = git s @
     [[''add'', ''.ccds''],
      [''commit'', ''-m'', ''Add ccds config directory''],
      [''add'', ''.gitignore'', ''LICENSE''],
      [''commit'', ''-m'', ''Add standard repo files''],
      [''add'', ''Dockerfile'', ''docker-compose.yml''],
      [''commit'', ''-m'', ''Add Docker configuration for Jupyter''],
      [''add'', ''data''],
      [''commit'', ''-m'', ''Add directory for storing datasets''],
      [''add'', ''docs''],
      [''commit'', ''-m'', ''Add directory for storing documentation''],
      [''add'', ''models''],
      [''commit'', ''-m'', ''Add directory for storing models''],
      [''add'', ''notebooks''],
      [''commit'', ''-m'', ''Add directory for storing notebooks''],
      [''add'', ''references''],
      [''commit'', ''-m'', ''Add directory for storing references''],
      [''add'', ''reports''],
      [''commit'', ''-m'', ''Add directory for storing reports''],
      [''add'', ''src''],
      [''commit'', ''-m'', ''Add directory for storing source code'']]"
  by (simp add: commit_steps_def gitAdd_def gitCommit_def git_run_git Let_def)

lemma git_run_other:
  "fs (snd (git_run e args s)) = fs s"
  "store (snd (git_run e args s)) = store s"
  "viper (snd (git_run e args s)) = viper s"
  "out (snd (git_run e args s)) = out s"
  "rpos (snd (git_run e args s)) = rpos s"
  "logs (snd (git_run e args s)) = logs s"
  by (simp_all add: git_run_def)

lemma commit_steps_other:
  "fs (commit_steps e s) = fs s"
  "store (commit_steps e s) = store s"
  "viper (commit_steps e s) = viper s"
  "out (commit_steps e s) = out s"
  "rpos (commit_steps e s) = rpos s"
  "logs (commit_steps e s) = logs s"
  by (simp_all add: commit_steps_def gitAdd_def gitCommit_def git_run_other Let_def)

lemma ReadDir_has_entry:
  assumes "ReadDir e d s = Inr entries"
  shows "list_ex (\<lambda>(name, n). name = x \<and> n = k) entries = ((resolve e d @ [x], k) \<in> set (fs s))"
proof -
  let ?p = "resolve e d"
  have ent: "set entries = (\<lambda>(q, n). (last q, n)) ` {(q, n). (q, n) \<in> set (fs s) \<and> q \<noteq> [] \<and> butlast q = ?p}"
    using assms by (auto simp: ReadDir_def Let_def split: if_splits)
  have "(x, k) \<in> set entries \<longleftrightarrow> (?p @ [x], k) \<in> set (fs s)"
  proof
    assume "(x, k) \<in> set entries"
    then obtain q where q: "(q, k) \<in> set (fs s)" "q \<noteq> []" "butlast q = ?p" "last q = x"
      unfolding ent by auto
    from q(2) have "butlast q @ [last q] = q" by simp
    with q show "(?p @ [x], k) \<in> set (fs s)" by simp
  next
    assume "(?p @ [x], k) \<in> set (fs s)"
    then have "(?p @ [x], k) \<in> {(q, n). (q, n) \<in> set (fs s) \<and> q \<noteq> [] \<and> butlast q = ?p}" by simp
    then have "(\<lambda>(q, n). (last q, n)) (?p @ [x], k) \<in> set entries"
      unfolding ent by (rule imageI)
    then show "(x, k) \<in> set entries" by simp
  qed
  then show ?thesis by (auto simp: list_ex_iff)
qed

lemma ReadDir_ok:
  "(\<exists>entries. ReadDir e d s = Inr entries) = (node_at (fs s) (resolve e d) = Some Dir)"
  by (simp add: ReadDir_def Let_def)

lemma Print_sel [simp]:
  "rpos (Print t s) = rpos s" "fs (Print t s) = fs s" "viper (Print t s) = viper s"
  "store (Print t s) = store s" "git (Print t s) = git s" "logs (Print t s) = logs s"
  by (simp_all add: Print_def)

lemma Println_sel [simp]:
  "rpos (Println t s) = rpos s" "fs (Println t s) = fs s" "viper (Println t s) = viper s"
  "store (Println t s) = store s" "git (Println t s) = git s" "logs (Println t s) = logs s"
  by (simp_all add: Println_def split: list.splits)

lemma print_menu_sel [simp]:
  "rpos (print_menu xs s) = rpos s \<and> fs (print_menu xs s) = fs s \<and> viper (print_menu xs s) = viper s
   \<and> store (print_menu xs s) = store s \<and> git (print_menu xs s) = git s \<and> logs (print_menu xs s) = logs s"
proof -
  have "\<And>s. rpos (foldl (\<lambda>s' i. Println [Itoa (int i + 1), ''-'', xs ! i] s') s is) = rpos s
    \<and> fs (foldl (\<lambda>s' i. Println [Itoa (int i + 1), ''-'', xs ! i] s') s is) = fs s
    \<and> viper (foldl (\<lambda>s' i. Println [Itoa (int i + 1), ''-'', xs ! i] s') s is) = viper s
    \<and> store (foldl (\<lambda>s' i. Println [Itoa (int i + 1), ''-'', xs ! i] s') s is) = store s
    \<and> git (foldl (\<lambda>s' i. Println [Itoa (int i + 1), ''-'', xs ! i] s') s is) = git s
    \<and> logs (foldl (\<lambda>s' i. Println [Itoa (int i + 1), ''-'', xs ! i] s') s is) = logs s" for "is"
    by (induction "is") simp_all
  then show ?thesis by (simp add: print_menu_def)
qed

lemma licenseLoop_valid:
  assumes "\<not> nonInteractive fl" "valid_choice (length ls) (Chomp e (reads e (rpos s)))"
  shows "\<exists>l. licenseLoop e fl ls ch s = Some (Inr l, license_next ch s)"
  using assms
  by (subst licenseLoop.simps)
     (auto simp: getInput_def valid_choice_def license_next_def split: option.splits)

lemma licenseLoop_invalid:
  assumes "\<not> nonInteractive fl" "\<not> valid_choice (length ls) (Chomp e (reads e (rpos s)))"
  shows "licenseLoop e fl ls ch s = licenseLoop e fl ls ch (license_next ch s)"
  using assms
  by (subst licenseLoop.simps)
     (auto simp: getInput_def valid_choice_def license_next_def split: option.splits)

lemma licenseLoop_terminates:
  assumes "\<not> nonInteractive fl"
  shows "rpos s \<le> k \<Longrightarrow> valid_choice (length ls) (Chomp e (reads e k)) \<Longrightarrow>
         licenseLoop e fl ls ch s \<noteq> None"
proof (induction "k - rpos s" arbitrary: s)
  case 0
  then have "rpos s = k" by simp
  with 0 licenseLoop_valid [OF assms, of ls e s ch] show ?case by auto
next
  case (Suc n)
  show ?case
  proof (cases "valid_choice (length ls) (Chomp e (reads e (rpos s)))")
    case True
    with licenseLoop_valid [OF assms, of ls e s ch] show ?thesis by auto
  next
    case False
    have "n = k - rpos (license_next ch s)" "rpos (license_next ch s) \<le> k"
      using Suc.hyps(2) by (simp_all add: license_next_def)
    then have "licenseLoop e fl ls ch (license_next ch s) \<noteq> None"
      using Suc.hyps(1) Suc.prems(2) by blast
    then show ?thesis using licenseLoop_invalid [OF assms False] by simp
  qed
qed

lemma licenseLoop_returns:
  assumes ret: "licenseLoop e fl ls ch s = Some r" and ni: "\<not> nonInteractive fl"
  shows "\<exists>k. rpos s \<le> k \<and> valid_choice (length ls) (Chomp e (reads e k))"
proof -
  have "\<not> nonInteractive fl \<longrightarrow> (\<exists>k. rpos s \<le> k \<and> valid_choice (length ls) (Chomp e (reads e k)))"
  proof (rule licenseLoop.raw_induct
      [where P = "\<lambda>e fl ls ch s r. \<not> nonInteractive fl \<longrightarrow>
          (\<exists>k. rpos s \<le> k \<and> valid_choice (length ls) (Chomp e (reads e k)))", OF _ ret], goal_cases)
    case (1 loop e fl ls ch s r)
    show ?case
    proof (intro impI)
      assume ni: "\<not> nonInteractive fl"
      show "\<exists>k. rpos s \<le> k \<and> valid_choice (length ls) (Chomp e (reads e k))"
      proof (cases "valid_choice (length ls) (Chomp e (reads e (rpos s)))")
        case True
        then show ?thesis by blast
      next
        case False
        with 1(2) ni have step: "loop e fl ls ch (license_next ch s) = Some r"
          by (simp add: getInput_def valid_choice_def license_next_def split: option.splits if_splits)
        have "\<not> nonInteractive fl \<longrightarrow>
            (\<exists>k. rpos (license_next ch s) \<le> k \<and> valid_choice (length ls) (Chomp e (reads e k)))"
          by (rule 1(1) [OF step])
        with ni obtain k where k: "rpos (license_next ch s) \<le> k"
          "valid_choice (length ls) (Chomp e (reads e k))" by blast
        from k(1) have "rpos s \<le> k" by (simp add: license_next_def)
        with k(2) show ?thesis by blast
      qed
    qed
  qed
  with ni show ?thesis by simp
qed

lemma valid_choice_empty: "\<not> valid_choice n []"
  by (simp add: valid_choice_def Atoi_def)

lemma languageLoop_empty:
  assumes "\<not> nonInteractive fl" "Chomp e (reads e (rpos s)) = []"
  shows "languageLoop e fl (l # ls) ch s
     = Some (Inr l, (Print (''Choose '' @ ch @ '' [1]: '') s)\<lparr>rpos := Suc (rpos s)\<rparr>)"
  using assms by (subst languageLoop.simps) (simp add: getInput_def)

lemma choices_text_3: "choices_text (length licenses) = Some ''1, 2, 3''"
  by (simp add: choices_text_def licenses_def Itoa_def itoa_nat.simps digit_char_def)

lemma same_disk_refl [simp]: "same_disk s s"
  by (simp add: same_disk_def)

lemma same_disk_trans: "same_disk s s1 \<Longrightarrow> same_disk s1 s2 \<Longrightarrow> same_disk s s2"
  by (simp add: same_disk_def)

lemma same_disk_Print [simp]:
  "same_disk s (Print t s)" "same_disk s (Println ts s)" "same_disk s (print_menu xs s)"
  "same_disk s (viper_Set k v s)"
  by (simp_all add: same_disk_def viper_Set_def)

lemma stage_ok_shift: "same_disk s s1 \<Longrightarrow> stage_ok s1 r \<Longrightarrow> stage_ok s r"
  by (simp add: stage_ok_def same_disk_def)

lemma getInput_ok: "stage_ok s (getInput e fl s)"
  by (simp add: getInput_def same_disk_def stage_ok_def)

lemma confirmLoop_ok:
  assumes "confirmLoop e fl s = Some r"
  shows "stage_ok s r"
proof (rule confirmLoop.raw_induct [where P = "\<lambda>e fl s r. stage_ok s r", OF _ assms], goal_cases)
  case (1 loop e fl s r)
  obtain i s1 where g: "getInput e fl s = (i, s1)" by (cases "getInput e fl s")
  with getInput_ok [of s e fl] have d: "same_disk s s1" "i \<noteq> Inl Done"
    by (simp_all add: stage_ok_def)
  show ?case
  proof (cases i)
    case (Inl oc)
    with 1(2) g d show ?thesis by (auto simp: stage_ok_def)
  next
    case (Inr input)
    show ?thesis
    proof (cases "input = ''y'' \<or> input = ''n'' \<or> input = []")
      case True
      with 1(2) g d Inr show ?thesis by (auto simp: stage_ok_def split: if_splits)
    next
      case False
      with 1(2) g Inr have "loop e fl (Print ''Please answer [y/N]: '' s1) = Some r" by simp
      from 1(1) [OF this] have "stage_ok (Print ''Please answer [y/N]: '' s1) r" .
      with d show ?thesis by (simp add: same_disk_def stage_ok_def)
    qed
  qed
qed

lemma licenseLoop_ok:
  assumes "licenseLoop e fl ls ch s = Some r"
  shows "stage_ok s r"
proof (rule licenseLoop.raw_induct [where P = "\<lambda>e fl ls ch s r. stage_ok s r", OF _ assms], goal_cases)
  case (1 loop e fl ls ch s r)
  obtain i s1 where g: "getInput e fl (Print (''Choose '' @ ch @ '': '') s) = (i, s1)"
    by (cases "getInput e fl (Print (''Choose '' @ ch @ '': '') s)")
  with getInput_ok [of "Print (''Choose '' @ ch @ '': '') s" e fl]
  have d: "same_disk s s1" "i \<noteq> Inl Done"
    by (simp_all add: stage_ok_def same_disk_def)
  show ?case
  proof (cases i)
    case (Inl oc)
    with 1(2) g d show ?thesis by (auto simp: stage_ok_def)
  next
    case (Inr input)
    show ?thesis
    proof (cases "valid_choice (length ls) input")
      case True
      with 1(2) g d Inr show ?thesis
        by (auto simp: valid_choice_def stage_ok_def split: option.splits if_splits)
    next
      case False
      with 1(2) g Inr have "loop e fl ls ch s1 = Some r"
        by (auto simp: valid_choice_def split: option.splits if_splits)
      from 1(1) [OF this] d show ?thesis by (simp add: same_disk_def stage_ok_def)
    qed
  qed
qed

lemma languageLoop_ok:
  assumes "languageLoop e fl ls ch s = Some r"
  shows "stage_ok s r"
proof (rule languageLoop.raw_induct [where P = "\<lambda>e fl ls ch s r. stage_ok s r", OF _ assms], goal_cases)
  case (1 loop e fl ls ch s r)
  obtain i s1 where g: "getInput e fl (Print (''Choose '' @ ch @ '' [1]: '') s) = (i, s1)"
    by (cases "getInput e fl (Print (''Choose '' @ ch @ '' [1]: '') s)")
  with getInput_ok [of "Print (''Choose '' @ ch @ '' [1]: '') s" e fl]
  have d: "same_disk s s1" "i \<noteq> Inl Done"
    by (simp_all add: stage_ok_def same_disk_def)
  show ?case
  proof (cases i)
    case (Inl oc)
    with 1(2) g d show ?thesis by (auto simp: stage_ok_def)
  next
    case (Inr input)
    show ?thesis
    proof (cases "input = [] \<or> valid_choice (length ls) input")
      case True
      with 1(2) g d Inr show ?thesis
        by (auto simp: valid_choice_def stage_ok_def split: option.splits if_splits list.splits)
    next
      case False
      with 1(2) g Inr have "loop e fl ls ch s1 = Some r"
        by (auto simp: valid_choice_def split: option.splits if_splits)
      from 1(1) [OF this] d show ?thesis by (simp add: same_disk_def stage_ok_def)
    qed
  qed
qed

lemma andThen_ok:
  assumes "andThen m f = Some r"
    and "\<And>r1. m = Some r1 \<Longrightarrow> stage_ok s r1"
    and "\<And>x s1 r2. m = Some (Inr x, s1) \<Longrightarrow> f x s1 = Some r2 \<Longrightarrow> stage_ok s1 r2"
  shows "stage_ok s r"
proof (cases m)
  case None
  with assms(1) show ?thesis by (simp add: andThen_def)
next
  case (Some p)
  obtain x s1 where p: "p = (x, s1)" by (cases p)
  show ?thesis
  proof (cases x)
    case (Inl oc)
    with assms(1) assms(2) [of p] Some p show ?thesis by (auto simp: andThen_def stage_ok_def)
  next
    case (Inr v)
    with assms(1) Some p have "f v s1 = Some r" by (simp add: andThen_def)
    from assms(3) [OF _ this] assms(2) [of p] Some p Inr show ?thesis
      by (auto simp: stage_ok_def intro: same_disk_trans)
  qed
qed

lemma checkDirectory_ok:
  assumes "checkDirectory e fl s = Some r"
  shows "stage_ok s r"
proof -
  have c: "stage_ok s x"
    if "confirmLoop e fl (Print ''This directory is not empty, initialize anyways? [y/N]: '' s) = Some x"
    for x
    using confirmLoop_ok [OF that] by (simp add: same_disk_def stage_ok_def)
  show ?thesis using assms c
    by (auto simp: checkDirectory_def andThen_def same_disk_def stage_ok_def viper_Set_def
        split: if_splits sum.splits option.splits prod.splits)
qed

lemma resolveAuthor_ok: "resolveAuthor e fl s = Some r \<Longrightarrow> stage_ok s r"
  using getInput_ok [of "Print ''Author (Your name or organization/company/team): '' s" e fl]
  by (auto simp: resolveAuthor_def same_disk_def stage_ok_def split: if_splits)

lemma resolveLicense_ok:
  assumes "resolveLicense e fl s = Some r"
  shows "stage_ok s r"
proof -
  have c: "stage_ok s x"
    if "licenseLoop e fl licenses ch (print_menu licenses (Println [''Select your license: ''] s)) = Some x"
    for x ch
    using licenseLoop_ok [OF that] by (simp add: same_disk_def stage_ok_def)
  show ?thesis using assms c
    by (auto simp: resolveLicense_def stage_ok_def split: if_splits option.splits)
qed

lemma resolveLanguage_ok:
  assumes "resolveLanguage e fl s = Some r"
  shows "stage_ok s r"
proof -
  have c: "stage_ok s x"
    if "languageLoop e fl (Supported e) ch (print_menu (Supported e) (Println [''Select your primary language: ''] s)) = Some x"
    for x ch
    using languageLoop_ok [OF that] by (simp add: same_disk_def stage_ok_def)
  show ?thesis using assms c
    by (auto simp: resolveLanguage_def stage_ok_def split: if_splits option.splits)
qed

lemma resolveConfig_ok:
  assumes "resolveConfig e fl s = Some r"
  shows "stage_ok s r"
  using assms unfolding resolveConfig_def
  apply (rule andThen_ok)
   apply (erule checkDirectory_ok)
  apply (erule andThen_ok)
   apply (erule resolveAuthor_ok)
  apply (erule andThen_ok)
   apply (erule resolveLicense_ok)
  apply (erule andThen_ok)
   apply (erule resolveLanguage_ok)
  apply (auto simp: stage_ok_def)
  done



lemma confirmLoop_nonInteractive:
  "nonInteractive fl \<Longrightarrow> confirmLoop e fl s
     = Some (Inl (Fatal (New (newline # ''error: input required in non-interactive mode''))), s)"
  by (subst confirmLoop.simps) (simp add: getInput_def)

lemma licenseLoop_nonInteractive:
  "nonInteractive fl \<Longrightarrow> licenseLoop e fl ls ch s
     = Some (Inl (Fatal (New (newline # ''error: input required in non-interactive mode''))),
             Print (''Choose '' @ ch @ '': '') s)"
  by (subst licenseLoop.simps) (simp add: getInput_def)

lemma getInput_viper: "getInput e fl s = (i, s1) \<Longrightarrow> viper s1 = viper s"
  by (auto simp: getInput_def split: if_splits)

lemma confirmLoop_viper:
  assumes "confirmLoop e fl s = Some r"
  shows "viper (snd r) = viper s"
proof (rule confirmLoop.raw_induct [where P = "\<lambda>e fl s r. viper (snd r) = viper s", OF _ assms], goal_cases)
  case (1 loop e fl s r)
  obtain i s1 where g: "getInput e fl s = (i, s1)" by (cases "getInput e fl s")
  note d = getInput_viper [OF g]
  show ?case
  proof (cases "\<exists>input. i = Inr input \<and> input \<noteq> ''y'' \<and> input \<noteq> ''n'' \<and> input \<noteq> []")
    case True
    with 1(2) g have "loop e fl (Print ''Please answer [y/N]: '' s1) = Some r" by auto
    from 1(1) [OF this] d show ?thesis by simp
  next
    case False
    with 1(2) g d show ?thesis by (cases i) (auto split: if_splits)
  qed
qed

lemma licenseLoop_viper:
  assumes "licenseLoop e fl ls ch s = Some r"
  shows "viper (snd r) = viper s"
proof (rule licenseLoop.raw_induct [where P = "\<lambda>e fl ls ch s r. viper (snd r) = viper s", OF _ assms], goal_cases)
  case (1 loop e fl ls ch s r)
  obtain i s1 where g: "getInput e fl (Print (''Choose '' @ ch @ '': '') s) = (i, s1)"
    by (cases "getInput e fl (Print (''Choose '' @ ch @ '': '') s)")
  from getInput_viper [OF g] have d: "viper s1 = viper s" by simp
  show ?case
  proof (cases "\<exists>input. i = Inr input \<and> \<not> valid_choice (length ls) input")
    case True
    with 1(2) g have "loop e fl ls ch s1 = Some r"
      by (auto simp: valid_choice_def split: option.splits if_splits)
    from 1(1) [OF this] d show ?thesis by simp
  next
    case False
    with 1(2) g d show ?thesis
      by (cases i) (auto simp: valid_choice_def split: option.splits if_splits)
  qed
qed

lemma languageLoop_viper:
  assumes "languageLoop e fl ls ch s = Some r"
  shows "viper (snd r) = viper s"
proof (rule languageLoop.raw_induct [where P = "\<lambda>e fl ls ch s r. viper (snd r) = viper s", OF _ assms], goal_cases)
  case (1 loop e fl ls ch s r)
  obtain i s1 where g: "getInput e fl (Print (''Choose '' @ ch @ '' [1]: '') s) = (i, s1)"
    by (cases "getInput e fl (Print (''Choose '' @ ch @ '' [1]: '') s)")
  from getInput_viper [OF g] have d: "viper s1 = viper s" by simp
  show ?case
  proof (cases "\<exists>input. i = Inr input \<and> input \<noteq> [] \<and> \<not> valid_choice (length ls) input")
    case True
    with 1(2) g have "loop e fl ls ch s1 = Some r"
      by (auto simp: valid_choice_def split: option.splits if_splits)
    from 1(1) [OF this] d show ?thesis by simp
  next
    case False
    with 1(2) g d show ?thesis
      by (cases i) (auto simp: valid_choice_def split: option.splits if_splits list.splits)
  qed
qed

lemma checkDirectory_viper:
  assumes "checkDirectory e fl s = Some (Inr root, s')"
  shows "root = cwd e \<and> viper s' = (viper s)(''ProjectRoot'' \<mapsto> cwd e)"
proof -
  have c: "viper (snd x) = viper s"
    if "confirmLoop e fl (Print ''This directory is not empty, initialize anyways? [y/N]: '' s) = Some x"
    for x
    using confirmLoop_viper [OF that] by simp
  show ?thesis using assms c
    by (auto simp: checkDirectory_def andThen_def viper_Set_def Getwd_def
        split: if_splits sum.splits option.splits prod.splits)
qed

lemma resolveAuthor_viper: "resolveAuthor e fl s = Some (r, s') \<Longrightarrow> viper s' = viper s"
  by (auto simp: resolveAuthor_def getInput_def split: if_splits)

lemma resolveLicense_viper:
  assumes "resolveLicense e fl s = Some (r, s')"
  shows "viper s' = viper s"
proof -
  have c: "viper (snd x) = viper s"
    if "licenseLoop e fl licenses ch (print_menu licenses (Println [''Select your license: ''] s)) = Some x"
    for x ch
    using licenseLoop_viper [OF that] by simp
  show ?thesis using assms c
    by (auto simp: resolveLicense_def split: if_splits option.splits)
qed

lemma resolveLanguage_viper:
  assumes "resolveLanguage e fl s = Some (r, s')"
  shows "viper s' = viper s"
proof -
  have c: "viper (snd x) = viper s"
    if "languageLoop e fl (Supported e) ch (print_menu (Supported e) (Println [''Select your primary language: ''] s)) = Some x"
    for x ch
    using languageLoop_viper [OF that] by simp
  show ?thesis using assms c
    by (auto simp: resolveLanguage_def split: if_splits option.splits)
qed

lemma andThen_Inr:
  "andThen m f = Some (Inr y, s') \<Longrightarrow> \<exists>x s1. m = Some (Inr x, s1) \<and> f x s1 = Some (Inr y, s')"
  by (auto simp: andThen_def split: option.splits sum.splits prod.splits)

lemma resolveConfig_viper:
  assumes "resolveConfig e fl s = Some (Inr cfg, s')"
  shows "viper s' = (viper s)(''ProjectRoot'' \<mapsto> cwd e)"
proof -
  from assms obtain root s1 a s2 l s3 g s4 where
    st: "checkDirectory e fl s = Some (Inr root, s1)"
        "resolveAuthor e fl s1 = Some (Inr a, s2)"
        "resolveLicense e fl s2 = Some (Inr l, s3)"
        "resolveLanguage e fl s3 = Some (Inr g, s4)" "s' = s4"
    unfolding resolveConfig_def
    by (auto dest!: andThen_Inr)
  from checkDirectory_viper [OF st(1)] resolveAuthor_viper [OF st(2)] resolveLicense_viper [OF st(3)]
    resolveLanguage_viper [OF st(4)] st(5)
  show ?thesis by simp
qed

lemma only_fs_refl [simp]: "only_fs s s"
  by (simp add: only_fs_def)

lemma only_fs_upd [simp]: "only_fs s (s\<lparr>fs := t\<rparr>)"
  by (simp add: only_fs_def)

lemma only_fs_trans: "only_fs s s1 \<Longrightarrow> only_fs s1 s2 \<Longrightarrow> only_fs s s2"
  unfolding only_fs_def by (metis world.surjective world.update_convs(3))

lemma only_fs_sel:
  "only_fs s s' \<Longrightarrow> viper s' = viper s \<and> store s' = store s \<and> git s' = git s \<and> rpos s' = rpos s
     \<and> out s' = out s \<and> logs s' = logs s"
  unfolding only_fs_def by (metis world.select_convs world.surjective world.update_convs(3))

lemma MkdirAll_only_fs: "only_fs s (snd (MkdirAll e d s))"
  by (simp add: MkdirAll_def split: prod.splits)

lemma Create_only_fs: "only_fs s (snd (Create e p s))"
  by (simp add: Create_def split: prod.splits)

lemma templates_Write_only_fs: "only_fs s (snd (templates_Write e src dest d s))"
  by (simp add: templates_Write_def split: prod.splits option.splits)

lemma make_dirs_only_fs: "only_fs s (snd (make_dirs e ds s))"
proof (induction ds arbitrary: s)
  case Nil
  show ?case by simp
next
  case (Cons a ds)
  obtain dir keep where a: "a = (dir, keep)" by (cases a)
  obtain r1 s1 where m: "MkdirAll e dir s = (r1, s1)" by (cases "MkdirAll e dir s")
  have d1: "only_fs s s1" using MkdirAll_only_fs [of s e dir] m by simp
  obtain r2 s2 where c: "Create e (Join [dir, ''.gitkeep'']) s1 = (r2, s2)"
    by (cases "Create e (Join [dir, ''.gitkeep'']) s1")
  have d2: "only_fs s s2"
    using only_fs_trans [OF d1] Create_only_fs [of s1 e "Join [dir, ''.gitkeep'']"] c by simp
  consider (fail1) "r1 \<noteq> None" | (fail2) "r1 = None" "keep" "r2 \<noteq> None"
    | (keep) "r1 = None" "keep" "r2 = None" | (nokeep) "r1 = None" "\<not> keep"
    by blast
  then show ?case
  proof cases
    case fail1
    with m d1 show ?thesis by (auto simp: a)
  next
    case fail2
    with m c d2 show ?thesis by (auto simp: a)
  next
    case keep
    with m c have "make_dirs e (a # ds) s = make_dirs e ds s2" by (simp add: a)
    with only_fs_trans [OF d2 Cons.IH [of s2]] show ?thesis by simp
  next
    case nokeep
    with m have "make_dirs e (a # ds) s = make_dirs e ds s1" by (simp add: a)
    with only_fs_trans [OF d1 Cons.IH [of s1]] show ?thesis by simp
  qed
qed

lemma write_files_only_fs: "only_fs s (snd (write_files e fls s))"
proof (induction fls arbitrary: s)
  case Nil
  show ?case by simp
next
  case (Cons a fls)
  obtain src dest where a: "a = (src, dest)" by (cases a)
  obtain r1 s1 where m: "templates_Write e src dest [] s = (r1, s1)"
    by (cases "templates_Write e src dest [] s")
  have d1: "only_fs s s1" using templates_Write_only_fs [of s e src dest "[]"] m by simp
  show ?case
  proof (cases r1)
    case None
    with m have "write_files e (a # fls) s = write_files e fls s1" by (simp add: a)
    with only_fs_trans [OF d1 Cons.IH [of s1]] show ?thesis by simp
  next
    case (Some err)
    with m d1 show ?thesis by (simp add: a)
  qed
qed

lemma createSkeleton_store:
  assumes "createSkeleton e s = (r, s')"
  shows "viper s' = viper s \<and> git s' = git s \<and>
     (case r of Some err \<Rightarrow> store s' = store s | None \<Rightarrow> store s' = Some (viper s))"
proof -
  let ?ds = "range_dirs e directories"
  let ?fls = "range_files e (files e (GetString s ''ProjectRoot'') (GetString s ''PrimaryLanguage''))"
  obtain r1 s1 where m: "make_dirs e ?ds s = (r1, s1)" by (cases "make_dirs e ?ds s")
  obtain r2 s2 where w: "write_files e ?fls s1 = (r2, s2)" by (cases "write_files e ?fls s1")
  have d1: "only_fs s s1" using make_dirs_only_fs [of s e ?ds] m by simp
  have d2: "only_fs s s2"
    using only_fs_trans [OF d1] write_files_only_fs [of s1 e ?fls] w by simp
  note f1 = only_fs_sel [OF d1] and f2 = only_fs_sel [OF d2]
  show ?thesis using assms m w f1 f2
    by (auto simp: createSkeleton_def Let_def WriteConfig_def split: option.splits if_splits)
qed

lemma writeLicense_only_fs: "only_fs s (snd (writeLicense e a l s))"
  by (simp add: writeLicense_def templates_Write_only_fs)

lemma initRepo_other:
  "fs (snd (initRepo e s)) = fs s \<and> store (snd (initRepo e s)) = store s
     \<and> viper (snd (initRepo e s)) = viper s"
  by (auto simp: initRepo_def commit_steps_other git_run_def split: sum.splits prod.splits bool.splits)

lemma scaffold_config:
  assumes "scaffold e a l g s0 = (oc, s')"
  shows "viper s' = (viper s0)(''Author'' \<mapsto> a, ''License'' \<mapsto> l, ''PrimaryLanguage'' \<mapsto> g) \<and>
     (store s' = store s0 \<or> store s' = Some (viper s'))"
proof -
  let ?s = "log_Println ''Creating project skeleton...''
      (viper_Set ''PrimaryLanguage'' g (viper_Set ''License'' l (viper_Set ''Author'' a s0)))"
  have v: "viper ?s = (viper s0)(''Author'' \<mapsto> a, ''License'' \<mapsto> l, ''PrimaryLanguage'' \<mapsto> g)"
    "store ?s = store s0"
    by (simp_all add: log_Println_def viper_Set_def)
  obtain r1 s1 where c: "createSkeleton e ?s = (r1, s1)" by (cases "createSkeleton e ?s")
  note c1 = createSkeleton_store [OF c]
  obtain r2 s2 where w: "writeLicense e a l s1 = (r2, s2)" by (cases "writeLicense e a l s1")
  have w1: "viper s2 = viper s1" "store s2 = store s1"
    using only_fs_sel [OF writeLicense_only_fs [of s1 e a l]] w by simp_all
  let ?s3 = "log_Println ''Initializing git repository...'' s2"
  obtain r3 s3 where i: "initRepo e ?s3 = (r3, s3)" by (cases "initRepo e ?s3")
  have i1: "viper s3 = viper s2" "store s3 = store s2"
    using initRepo_other [of e ?s3] i by (simp_all add: log_Println_def)
  show ?thesis
  proof (cases r1)
    case (Some err)
    with assms c c1 v show ?thesis by (simp add: scaffold_def Let_def)
  next
    case None
    with c1 v have s1: "viper s1 = (viper s0)(''Author'' \<mapsto> a, ''License'' \<mapsto> l, ''PrimaryLanguage'' \<mapsto> g)"
      "store s1 = Some (viper s1)" by simp_all
    from assms c None w i have "s' = s2 \<or> s' = s3"
      by (auto simp: scaffold_def Let_def split: option.splits)
    with s1 w1 i1 show ?thesis by auto
  qed
qed

lemma resolve_env0 [simp]:
  "resolve env0 ''/proj'' = [''proj'']"
  "resolve env0 ''.ccds'' = [''proj'', ''.ccds'']"
  "resolve env0 ''data'' = [''proj'', ''data'']"
  by (simp_all add: resolve_def is_rooted_def env0_simps)

lemma resolveConfig_flags0:
  "fs s = (([''proj''], Dir) # t) \<Longrightarrow> viper s = Map.empty \<Longrightarrow>
   resolveConfig env0 flags0 s = Some (Inr (''Ada'', ''MIT'', ''python''), viper_Set ''ProjectRoot'' ''/proj'' s)"
  by (simp add: resolveConfig_def checkDirectory_def GetString_def Getwd_def ReadDir_def node_at_def
      env0_simps andThen_simps resolveAuthor_def resolveLicense_def resolveLanguage_def flags0_def
      Contains_def licenses_def)

lemma Run_world1:
  "Run env0 flags0 world1 = Some (Fatal (Wrap (Cause ''not a directory'') ''failed to create directory data''),
      (log_Println ''Creating project skeleton...''
        (viper_Set ''PrimaryLanguage'' ''python'' (viper_Set ''License'' ''MIT'' (viper_Set ''Author'' ''Ada''
          (viper_Set ''ProjectRoot'' ''/proj'' world1)))))
      \<lparr>fs := [([''proj''], Dir), ([''proj'', ''data''], File []), ([''proj'', ''.ccds''], Dir)]\<rparr>)"
proof -
  have m1: "mkdir_all env0 [''proj'', ''.ccds''] [([''proj''], Dir), ([''proj'', ''data''], File [])]
      = (None, [([''proj''], Dir), ([''proj'', ''data''], File []), ([''proj'', ''.ccds''], Dir)])"
    by (simp add: mkdir_all.simps [of _ "[''proj'', ''.ccds'']"] mkdir_all.simps [of _ "[''proj'']"]
        node_at_def env0_simps)
  have m2: "mkdir_all env0 [''proj'', ''data''] [([''proj''], Dir), ([''proj'', ''data''], File []), ([''proj'', ''.ccds''], Dir)]
      = (Some (Cause ''not a directory''), [([''proj''], Dir), ([''proj'', ''data''], File []), ([''proj'', ''.ccds''], Dir)])"
    by (simp add: mkdir_all.simps [of _ "[''proj'', ''data'']"] node_at_def)
  show ?thesis
    by (simp add: Run_def resolveConfig_flags0 [of _ "[([''proj'', ''data''], File [])]"] world1_def world0_def
        scaffold_def createSkeleton_def env0_simps directories_def MkdirAll_def m1 m2
        viper_Set_def log_Println_def)
qed










lemma kind_kept_refl [simp]: "kind_kept t t"
  by (simp add: kind_kept_def)

lemma kind_kept_trans: "kind_kept t t1 \<Longrightarrow> kind_kept t1 t2 \<Longrightarrow> kind_kept t t2"
  unfolding kind_kept_def by blast

lemma mkdir_all_keeps:
  "mkdir_all e p t = (r, t') \<Longrightarrow> map_of t q = Some n \<Longrightarrow> map_of t' q = Some n"
proof (induction e p t arbitrary: r t' rule: mkdir_all.induct)
  case (1 e p t)
  show ?case
  proof (cases "node_at t p")
    case (Some k)
    with "1.prems" show ?thesis
      by (cases k) (auto simp: mkdir_all.simps [of e p t])
  next
    case None
    obtain r0 t0 where p0: "mkdir_all e (butlast p) t = (r0, t0)"
      by (cases "mkdir_all e (butlast p) t")
    from "1.IH" [OF None p0 "1.prems"(2)] have k0: "map_of t0 q = Some n" .
    have pn: "map_of t p = None" "p \<noteq> []"
      using None by (auto simp: node_at_def split: if_splits)
    show ?thesis
    proof (cases "r0 = None \<and> \<not> denied e p")
      case True
      with "1.prems"(1) None p0 have t': "t' = AList.update p Dir t0"
        by (auto simp: mkdir_all.simps [of e p t])
      from pn "1.prems"(2) have "q \<noteq> p" by auto
      with k0 show ?thesis by (simp add: t' update_conv')
    next
      case False
      with "1.prems"(1) None p0 have "t' = t0"
        by (auto simp: mkdir_all.simps [of e p t] split: if_splits option.splits)
      with k0 show ?thesis by simp
    qed
  qed
qed

lemma mkdir_all_node_keeps:
  "mkdir_all e p t = (r, t') \<Longrightarrow> node_at t q = Some n \<Longrightarrow> node_at t' q = Some n"
  using mkdir_all_keeps [of e p t r t' q n] by (auto simp: node_at_def split: if_splits)

lemma mkdir_all_kind_kept: "mkdir_all e p t = (r, t') \<Longrightarrow> kind_kept t t'"
  unfolding kind_kept_def using mkdir_all_node_keeps [of e p t r t'] by blast

lemma mkdir_all_made: "mkdir_all e p t = (None, t') \<Longrightarrow> node_at t' p = Some Dir"
  by (subst (asm) mkdir_all.simps)
     (auto simp: node_at_def update_conv' split: option.splits node.splits prod.splits if_splits)

lemma mkdir_all_exists: "node_at t p = Some Dir \<Longrightarrow> mkdir_all e p t = (None, t)"
  by (simp add: mkdir_all.simps [of e p t])

lemma write_at_cases:
  "write_at e p c t = (r, t') \<Longrightarrow>
   (r \<noteq> None \<and> t' = t) \<or>
   (r = None \<and> \<not> denied e p \<and> node_at t (butlast p) = Some Dir \<and> node_at t p \<noteq> Some Dir \<and>
    p \<noteq> [] \<and> t' = AList.update p (File c) t)"
  by (auto simp: write_at_def node_at_def split: if_splits)

lemma write_at_succeeds:
  "\<not> denied e p \<Longrightarrow> node_at t (butlast p) = Some Dir \<Longrightarrow> node_at t p \<noteq> Some Dir \<Longrightarrow>
   write_at e p c t = (None, AList.update p (File c) t)"
  by (simp add: write_at_def)

lemma write_at_kind_kept: "write_at e p c t = (r, t') \<Longrightarrow> kind_kept t t'"
proof -
  assume w: "write_at e p c t = (r, t')"
  from write_at_cases [OF w] show ?thesis
  proof
    assume "r \<noteq> None \<and> t' = t" then show ?thesis by simp
  next
    assume a: "r = None \<and> \<not> denied e p \<and> node_at t (butlast p) = Some Dir \<and>
      node_at t p \<noteq> Some Dir \<and> p \<noteq> [] \<and> t' = AList.update p (File c) t"
    then have n: "node_at t' q = (if q = p then Some (File c) else node_at t q)" for q
      by (auto simp: node_at_def update_conv')
    from a show ?thesis unfolding kind_kept_def n by auto
  qed
qed

lemma kind_kept_dir: "kind_kept t t' \<Longrightarrow> node_at t q = Some Dir \<Longrightarrow> node_at t' q = Some Dir"
  by (simp add: kind_kept_def)

lemma kind_kept_file:
  "kind_kept t t' \<Longrightarrow> \<exists>c. node_at t q = Some (File c) \<Longrightarrow> \<exists>c. node_at t' q = Some (File c)"
  by (simp add: kind_kept_def)

lemma dirs_done_kept:
  assumes "dirs_done e ds t" "kind_kept t t'"
  shows "dirs_done e ds t'"
  unfolding dirs_done_def
proof (intro allI impI)
  fix d keep assume m: "(d, keep) \<in> set ds"
  with assms(1) have a: "node_at t (resolve e d) = Some Dir"
    and b: "keep \<longrightarrow> \<not> denied e (gitkeep_path e d) \<and>
           node_at t (butlast (gitkeep_path e d)) = Some Dir \<and>
           (\<exists>c. node_at t (gitkeep_path e d) = Some (File c))"
    unfolding dirs_done_def by blast+
  from a have a': "node_at t' (resolve e d) = Some Dir" by (rule kind_kept_dir [OF assms(2)])
  have b': "\<not> denied e (gitkeep_path e d) \<and>
           node_at t' (butlast (gitkeep_path e d)) = Some Dir \<and>
           (\<exists>c. node_at t' (gitkeep_path e d) = Some (File c))" if keep
  proof -
    from b that have b1: "\<not> denied e (gitkeep_path e d)"
      and b2: "node_at t (butlast (gitkeep_path e d)) = Some Dir"
      and b3: "\<exists>c. node_at t (gitkeep_path e d) = Some (File c)" by blast+
    from kind_kept_dir [OF assms(2) b2] kind_kept_file [OF assms(2) b3] b1 show ?thesis by blast
  qed
  from a' b' show "node_at t' (resolve e d) = Some Dir \<and>
        (keep \<longrightarrow> \<not> denied e (gitkeep_path e d) \<and>
           node_at t' (butlast (gitkeep_path e d)) = Some Dir \<and>
           (\<exists>c. node_at t' (gitkeep_path e d) = Some (File c)))" by blast
qed

lemma files_done_kept:
  assumes "files_done e fl t" "kind_kept t t'"
  shows "files_done e fl t'"
  unfolding files_done_def
proof (intro allI impI)
  fix src dest assume m: "(src, dest) \<in> set fl"
  with assms(1) have a: "render e src [] \<noteq> None" "\<not> denied e (resolve e dest)"
    and b: "node_at t (butlast (resolve e dest)) = Some Dir"
    and c: "\<exists>c. node_at t (resolve e dest) = Some (File c)"
    unfolding files_done_def by blast+
  from a kind_kept_dir [OF assms(2) b] kind_kept_file [OF assms(2) c]
  show "render e src [] \<noteq> None \<and> \<not> denied e (resolve e dest) \<and>
        node_at t' (butlast (resolve e dest)) = Some Dir \<and>
        (\<exists>c. node_at t' (resolve e dest) = Some (File c))" by blast
qed

lemma all_pairs_Cons:
  "(\<forall>x y. (x, y) \<in> set ((a, b) # xs) \<longrightarrow> P x y) = (P a b \<and> (\<forall>x y. (x, y) \<in> set xs \<longrightarrow> P x y))"
  by auto

lemma dirs_done_Nil [simp]: "dirs_done e [] t"
  by (simp add: dirs_done_def)

lemma files_done_Nil [simp]: "files_done e [] t"
  by (simp add: files_done_def)

lemma dirs_done_Cons:
  "dirs_done e ((d, keep) # ds) t =
     (node_at t (resolve e d) = Some Dir \<and>
      (keep \<longrightarrow> \<not> denied e (gitkeep_path e d) \<and>
         node_at t (butlast (gitkeep_path e d)) = Some Dir \<and>
         (\<exists>c. node_at t (gitkeep_path e d) = Some (File c))) \<and>
      dirs_done e ds t)"
  unfolding dirs_done_def by (simp only: all_pairs_Cons conj_assoc)

lemma files_done_Cons:
  "files_done e ((src, dest) # fl) t =
     (render e src [] \<noteq> None \<and> \<not> denied e (resolve e dest) \<and>
      node_at t (butlast (resolve e dest)) = Some Dir \<and>
      (\<exists>c. node_at t (resolve e dest) = Some (File c)) \<and>
      files_done e fl t)"
  unfolding files_done_def by (simp only: all_pairs_Cons conj_assoc)

lemma MkdirAll_tree:
  "MkdirAll e d s = (r, s') \<Longrightarrow> mkdir_all e (resolve e d) (fs s) = (r, fs s')"
  by (auto simp: MkdirAll_def split: prod.splits)

lemma Create_tree:
  "Create e name s = (r, s') \<Longrightarrow> write_at e (resolve e name) [] (fs s) = (r, fs s')"
  by (auto simp: Create_def split: prod.splits)

lemma templates_Write_tree:
  "templates_Write e src dest d s = (None, s') \<Longrightarrow>
   \<exists>body. render e src d = Some body \<and> write_at e (resolve e dest) body (fs s) = (None, fs s')"
  by (auto simp: templates_Write_def split: prod.splits option.splits)

lemma templates_Write_kind_kept:
  "templates_Write e src dest d s = (r, s') \<Longrightarrow> kind_kept (fs s) (fs s')"
  by (auto simp: templates_Write_def split: prod.splits option.splits dest: write_at_kind_kept)

text \<open>A successful pass over the directories.\<close>

lemma make_dirs_done:
  "make_dirs e ds s = (None, s') \<Longrightarrow>
   kind_kept (fs s) (fs s') \<and> dirs_done e ds (fs s') \<and>
   (\<forall>q. map_of (fs s) q = Some (File []) \<longrightarrow> map_of (fs s') q = Some (File [])) \<and>
   (\<forall>d. (d, True) \<in> set ds \<longrightarrow> map_of (fs s') (gitkeep_path e d) = Some (File []))"
proof (induction ds arbitrary: s)
  case Nil
  then show ?case by simp
next
  case (Cons a ds)
  obtain d keep where a: "a = (d, keep)" by (cases a)
  obtain r1 s1 where m: "MkdirAll e d s = (r1, s1)" by (cases "MkdirAll e d s")
  with Cons.prems have r1: "r1 = None" by (auto simp: a split: option.splits)
  note mt = MkdirAll_tree [OF m [unfolded r1]]
  have k1: "kind_kept (fs s) (fs s1)" by (rule mkdir_all_kind_kept [OF mt])
  have b1: "map_of (fs s) q = Some (File []) \<Longrightarrow> map_of (fs s1) q = Some (File [])" for q
    by (rule mkdir_all_keeps [OF mt])
  have d1: "node_at (fs s1) (resolve e d) = Some Dir" by (rule mkdir_all_made [OF mt])
  show ?case
  proof (cases keep)
    case False
    with Cons.prems m r1 have rest: "make_dirs e ds s1 = (None, s')" by (simp add: a)
    note ih = Cons.IH [OF rest]
    from ih k1 have "kind_kept (fs s) (fs s')" by (blast intro: kind_kept_trans)
    moreover from ih d1 have "node_at (fs s') (resolve e d) = Some Dir"
      by (simp add: kind_kept_def)
    moreover from ih b1 have "\<forall>q. map_of (fs s) q = Some (File []) \<longrightarrow> map_of (fs s') q = Some (File [])"
      by blast
    ultimately show ?thesis using ih False by (auto simp: a dirs_done_Cons)
  next
    case True
    let ?g = "gitkeep_path e d"
    obtain r2 s2 where c: "Create e (Join [d, ''.gitkeep'']) s1 = (r2, s2)"
      by (cases "Create e (Join [d, ''.gitkeep'']) s1")
    with Cons.prems m r1 True have r2: "r2 = None" by (auto simp: a split: option.splits)
    from Cons.prems m r1 True c r2 have rest: "make_dirs e ds s2 = (None, s')" by (simp add: a)
    have ct: "write_at e ?g [] (fs s1) = (None, fs s2)"
      using Create_tree [OF c] r2 by (simp add: gitkeep_path_def)
    from write_at_cases [OF ct] have w: "\<not> denied e ?g" "node_at (fs s1) (butlast ?g) = Some Dir"
      "?g \<noteq> []" "fs s2 = AList.update ?g (File []) (fs s1)" by simp_all
    have k2: "kind_kept (fs s1) (fs s2)" by (rule write_at_kind_kept [OF ct])
    have g2: "map_of (fs s2) ?g = Some (File [])" by (simp add: w(4) update_conv')
    have b2: "map_of (fs s1) q = Some (File []) \<Longrightarrow> map_of (fs s2) q = Some (File [])" for q
      by (simp add: w(4) update_conv')
    note ih = Cons.IH [OF rest]
    have k: "kind_kept (fs s) (fs s')"
      using k1 k2 ih by (blast intro: kind_kept_trans)
    have k12: "kind_kept (fs s1) (fs s')" "kind_kept (fs s2) (fs s')"
      using k2 ih by (blast intro: kind_kept_trans)+
    have hd1: "node_at (fs s') (resolve e d) = Some Dir"
      using d1 k12(1) by (simp add: kind_kept_def)
    have hd2: "node_at (fs s') (butlast ?g) = Some Dir"
      using w(2) k12(1) by (simp add: kind_kept_def)
    have hd3: "map_of (fs s') ?g = Some (File [])" using g2 ih by blast
    then have hd4: "\<exists>c. node_at (fs s') ?g = Some (File c)" using w(3) by (simp add: node_at_def)
    have bl: "\<forall>q. map_of (fs s) q = Some (File []) \<longrightarrow> map_of (fs s') q = Some (File [])"
      using b1 b2 ih by blast
    show ?thesis using k hd1 hd2 hd3 hd4 bl w(1) ih True
      by (auto simp: a dirs_done_Cons)
  qed
qed

lemma MkdirAll_exists:
  "node_at (fs s) (resolve e d) = Some Dir \<Longrightarrow> MkdirAll e d s = (None, s)"
  by (simp add: MkdirAll_def mkdir_all_exists)

text \<open>A pass over directories that are all there already.\<close>

lemma make_dirs_again:
  "dirs_done e ds0 (fs s) \<Longrightarrow> set ds \<subseteq> set ds0 \<Longrightarrow>
   \<exists>s'. make_dirs e ds s = (None, s') \<and> kind_kept (fs s) (fs s') \<and>
     (\<forall>q. map_of (fs s') q =
        (if q \<in> gitkeep_path e ` {d. (d, True) \<in> set ds} then Some (File []) else map_of (fs s) q))"
proof (induction ds arbitrary: s)
  case Nil
  show ?case by simp
next
  case (Cons a ds)
  obtain d keep where a: "a = (d, keep)" by (cases a)
  from Cons.prems a have mem: "(d, keep) \<in> set ds0" and sub: "set ds \<subseteq> set ds0" by auto
  from Cons.prems(1) mem have dd: "node_at (fs s) (resolve e d) = Some Dir"
    unfolding dirs_done_def by blast
  note m = MkdirAll_exists [OF dd]
  show ?case
  proof (cases keep)
    case False
    from Cons.IH [OF Cons.prems(1) sub] obtain s' where
      ih: "make_dirs e ds s = (None, s')" "kind_kept (fs s) (fs s')"
        "\<forall>q. map_of (fs s') q =
          (if q \<in> gitkeep_path e ` {d. (d, True) \<in> set ds} then Some (File []) else map_of (fs s) q)"
      by blast
    have g: "{d'. (d', True) \<in> set (a # ds)} = {d'. (d', True) \<in> set ds}"
      using False by (auto simp: a)
    have "make_dirs e (a # ds) s = (None, s')" using m ih(1) False by (simp add: a)
    with ih(2,3) show ?thesis unfolding g by blast
  next
    case True
    let ?g = "gitkeep_path e d"
    from Cons.prems(1) mem True have gd: "\<not> denied e ?g" "node_at (fs s) (butlast ?g) = Some Dir"
      "\<exists>c. node_at (fs s) ?g = Some (File c)"
      unfolding dirs_done_def by blast+
    from gd(3) have nd: "node_at (fs s) ?g \<noteq> Some Dir" by auto
    let ?s2 = "s\<lparr>fs := AList.update ?g (File []) (fs s)\<rparr>"
    have wa: "write_at e ?g [] (fs s) = (None, AList.update ?g (File []) (fs s))"
      by (rule write_at_succeeds [OF gd(1,2) nd])
    have c: "Create e (Join [d, ''.gitkeep'']) s = (None, ?s2)"
      using wa by (simp add: Create_def gitkeep_path_def)
    have k2: "kind_kept (fs s) (fs ?s2)"
      using write_at_kind_kept [OF wa] by simp
    have d2: "dirs_done e ds0 (fs ?s2)" by (rule dirs_done_kept [OF Cons.prems(1) k2])
    from Cons.IH [OF d2 sub] obtain s' where
      ih: "make_dirs e ds ?s2 = (None, s')" "kind_kept (fs ?s2) (fs s')"
        "\<forall>q. map_of (fs s') q =
          (if q \<in> gitkeep_path e ` {d. (d, True) \<in> set ds} then Some (File []) else map_of (fs ?s2) q)"
      by blast
    have g: "gitkeep_path e ` {d'. (d', True) \<in> set (a # ds)}
        = insert ?g (gitkeep_path e ` {d'. (d', True) \<in> set ds})"
      using True by (auto simp: a)
    have run: "make_dirs e (a # ds) s = (None, s')" using m c ih(1) True by (simp add: a)
    have kk: "kind_kept (fs s) (fs s')" by (rule kind_kept_trans [OF k2 ih(2)])
    have mp: "map_of (fs s') q =
        (if q \<in> gitkeep_path e ` {d. (d, True) \<in> set (a # ds)} then Some (File []) else map_of (fs s) q)" for q
      using ih(3) unfolding g by (simp add: update_conv')
    from run kk mp show ?thesis by blast
  qed
qed

text \<open>A successful pass over the files.\<close>

lemma write_files_done:
  "write_files e fl s = (None, s') \<Longrightarrow>
   kind_kept (fs s) (fs s') \<and> files_done e fl (fs s') \<and>
   (\<forall>q. q \<notin> (\<lambda>x. resolve e (snd x)) ` set fl \<longrightarrow> map_of (fs s') q = map_of (fs s) q) \<and>
   (distinct (map (\<lambda>x. resolve e (snd x)) fl) \<longrightarrow>
      (\<forall>src dest. (src, dest) \<in> set fl \<longrightarrow>
         (\<exists>body. render e src [] = Some body \<and> map_of (fs s') (resolve e dest) = Some (File body))))"
proof (induction fl arbitrary: s)
  case Nil
  then show ?case by simp
next
  case (Cons a fl)
  obtain src dest where a: "a = (src, dest)" by (cases a)
  let ?p = "resolve e dest"
  obtain r1 s1 where w: "templates_Write e src dest [] s = (r1, s1)"
    by (cases "templates_Write e src dest [] s")
  with Cons.prems have r1: "r1 = None" by (auto simp: a split: option.splits)
  with Cons.prems w have rest: "write_files e fl s1 = (None, s')" by (simp add: a)
  from templates_Write_tree [OF w [unfolded r1]] obtain body where
    b: "render e src [] = Some body" "write_at e ?p body (fs s) = (None, fs s1)" by blast
  from write_at_cases [OF b(2)] have wc: "\<not> denied e ?p" "node_at (fs s) (butlast ?p) = Some Dir"
    "?p \<noteq> []" "fs s1 = AList.update ?p (File body) (fs s)" by simp_all
  have k1: "kind_kept (fs s) (fs s1)" by (rule write_at_kind_kept [OF b(2)])
  from Cons.IH [OF rest] have
    ih1: "kind_kept (fs s1) (fs s')" and ih2: "files_done e fl (fs s')"
    and ih3: "\<forall>q. q \<notin> (\<lambda>x. resolve e (snd x)) ` set fl \<longrightarrow> map_of (fs s') q = map_of (fs s1) q"
    and ih4: "distinct (map (\<lambda>x. resolve e (snd x)) fl) \<longrightarrow>
      (\<forall>src dest. (src, dest) \<in> set fl \<longrightarrow>
         (\<exists>body. render e src [] = Some body \<and> map_of (fs s') (resolve e dest) = Some (File body)))"
    by blast+
  have k: "kind_kept (fs s) (fs s')" by (rule kind_kept_trans [OF k1 ih1])
  have p1: "node_at (fs s1) ?p = Some (File body)" using wc(3,4) by (simp add: node_at_def update_conv')
  have h1: "node_at (fs s') (butlast ?p) = Some Dir" by (rule kind_kept_dir [OF k wc(2)])
  have h2: "\<exists>c. node_at (fs s') ?p = Some (File c)"
    using kind_kept_file [OF ih1] p1 by blast
  have fd: "files_done e (a # fl) (fs s')"
    using b(1) wc(1) h1 h2 ih2 by (simp add: a files_done_Cons)
  have fr: "map_of (fs s') q = map_of (fs s) q" if "q \<notin> (\<lambda>x. resolve e (snd x)) ` set (a # fl)" for q
  proof -
    from that have "q \<noteq> ?p" "q \<notin> (\<lambda>x. resolve e (snd x)) ` set fl" by (auto simp: a)
    with ih3 show ?thesis by (simp add: wc(4) update_conv')
  qed
  have ct: "\<exists>body. render e src' [] = Some body \<and> map_of (fs s') (resolve e dest') = Some (File body)"
    if di: "distinct (map (\<lambda>x. resolve e (snd x)) (a # fl))" and me: "(src', dest') \<in> set (a # fl)"
    for src' dest'
  proof (cases "(src', dest') \<in> set fl")
    case True
    with di ih4 show ?thesis by simp
  next
    case False
    with me have eq: "src' = src" "dest' = dest" by (auto simp: a)
    from di have "?p \<notin> (\<lambda>x. resolve e (snd x)) ` set fl" by (simp add: a)
    with ih3 have "map_of (fs s') ?p = map_of (fs s1) ?p" by blast
    with p1 wc(3) b(1) show ?thesis by (simp add: eq node_at_def)
  qed
  from k fd fr ct show ?case by blast
qed

lemma write_files_again:
  "files_done e fl0 (fs s) \<Longrightarrow> set fl \<subseteq> set fl0 \<Longrightarrow> \<exists>s'. write_files e fl s = (None, s')"
proof (induction fl arbitrary: s)
  case Nil
  show ?case by simp
next
  case (Cons a fl)
  obtain src dest where a: "a = (src, dest)" by (cases a)
  let ?p = "resolve e dest"
  from Cons.prems a have mem: "(src, dest) \<in> set fl0" and sub: "set fl \<subseteq> set fl0" by auto
  from Cons.prems(1) mem obtain body where b: "render e src [] = Some body"
    and f: "\<not> denied e ?p" "node_at (fs s) (butlast ?p) = Some Dir" "\<exists>c. node_at (fs s) ?p = Some (File c)"
    unfolding files_done_def by blast
  from f(3) have nd: "node_at (fs s) ?p \<noteq> Some Dir" by auto
  let ?s1 = "s\<lparr>fs := AList.update ?p (File body) (fs s)\<rparr>"
  have wa: "write_at e ?p body (fs s) = (None, AList.update ?p (File body) (fs s))"
    by (rule write_at_succeeds [OF f(1,2) nd])
  have w: "templates_Write e src dest [] s = (None, ?s1)"
    using b wa by (simp add: templates_Write_def)
  have "kind_kept (fs s) (fs ?s1)" using write_at_kind_kept [OF wa] by simp
  from files_done_kept [OF Cons.prems(1) this] have "files_done e fl0 (fs ?s1)" .
  from Cons.IH [OF this sub] obtain s' where "write_files e fl ?s1 = (None, s')" by blast
  with w have "write_files e (a # fl) s = (None, s')" by (simp add: a)
  then show ?case by blast
qed

lemma same_machine_range [simp]:
  "same_machine e (e\<lparr>range_dirs := rd, range_files := rf\<rparr>)"
  by (simp add: same_machine_def)

lemma resolve_same: "same_machine e e' \<Longrightarrow> resolve e' p = resolve e p"
  by (simp add: same_machine_def resolve_def)

lemma mkdir_all_same:
  "denied e' = denied e \<Longrightarrow> mkdir_all e' p t = mkdir_all e p t"
proof (induction e p t rule: mkdir_all.induct)
  case (1 e p t)
  show ?case
  proof (cases "node_at t p")
    case None
    from "1.IH" [OF None "1.prems"] "1.prems" show ?thesis
      by (simp add: mkdir_all.simps [of e' p t] mkdir_all.simps [of e p t] None
          split: prod.splits option.splits)
  next
    case (Some n)
    then show ?thesis
      by (simp add: mkdir_all.simps [of e' p t] mkdir_all.simps [of e p t])
  qed
qed

lemma write_at_same: "denied e' = denied e \<Longrightarrow> write_at e' p c t = write_at e p c t"
  by (simp add: write_at_def)

lemma make_dirs_same: "same_machine e e' \<Longrightarrow> make_dirs e' ds s = make_dirs e ds s"
proof (induction ds arbitrary: s)
  case Nil
  show ?case by simp
next
  case (Cons a ds)
  obtain d keep where a: "a = (d, keep)" by (cases a)
  from Cons.prems have dn: "denied e' = denied e" by (simp add: same_machine_def)
  have m: "MkdirAll e' d s = MkdirAll e d s" for s
    by (simp add: MkdirAll_def resolve_same [OF Cons.prems] mkdir_all_same [OF dn])
  have c: "Create e' n s = Create e n s" for n s
    by (simp add: Create_def resolve_same [OF Cons.prems] write_at_same [OF dn])
  show ?case by (simp add: a m c Cons.IH [OF Cons.prems] Let_def split: prod.splits option.splits)
qed

lemma write_files_same: "same_machine e e' \<Longrightarrow> write_files e' fl s = write_files e fl s"
proof (induction fl arbitrary: s)
  case Nil
  show ?case by simp
next
  case (Cons a fl)
  obtain src dest where a: "a = (src, dest)" by (cases a)
  from Cons.prems have dn: "denied e' = denied e" "render e' = render e"
    by (simp_all add: same_machine_def)
  have w: "templates_Write e' src dest [] s = templates_Write e src dest [] s" for s
    by (simp add: templates_Write_def resolve_same [OF Cons.prems] write_at_same [OF dn(1)] dn(2)
        split: option.splits)
  show ?case by (simp add: a w Cons.IH [OF Cons.prems] split: prod.splits option.splits)
qed

lemma files_same: "same_machine e e' \<Longrightarrow> files e' root lang = files e root lang"
  by (simp add: same_machine_def files_def universal_files_def)

lemma WriteConfig_same: "same_machine e e' \<Longrightarrow> WriteConfig e' s = WriteConfig e s"
  by (simp add: same_machine_def WriteConfig_def)

lemma createSkeleton_steps:
  "createSkeleton e s = (None, s1) \<Longrightarrow>
   \<exists>sa sb. make_dirs e (range_dirs e directories) s = (None, sa) \<and>
     write_files e (range_files e (files e (GetString s ''ProjectRoot'') (GetString s ''PrimaryLanguage''))) sa
       = (None, sb) \<and>
     config_writable e \<and> s1 = sb\<lparr>store := Some (viper sb)\<rparr>"
  by (auto simp: createSkeleton_def Let_def WriteConfig_def split: prod.splits option.splits if_splits)

lemma distinct_map_mset:
  assumes "mset xs = mset ys"
  shows "distinct (map f xs) = distinct (map f ys)"
proof -
  have "mset (map f xs) = mset (map f ys)" by (simp add: assms)
  then show ?thesis by (rule mset_eq_imp_distinct_iff)
qed

lemma first_ok: "fst (createSkeleton env0 world2) = None"
  by code_simp


lemma files_world2:
  "files env0 (GetString world2 ''ProjectRoot'') (GetString world2 ''PrimaryLanguage'')
     = [(''gitignore/python'', ''.gitignore''), (''docker/Dockerfile'', ''/proj/Dockerfile''),
        (''docker/docker-compose.yml'', ''/proj/docker-compose.yml'')]"
  by (simp add: files_def universal_files_def env0_simps world2_def world0_def viper_Set_def
      GetString_def Dockerfile_def DockerCompose_def Join_def Clean_def is_rooted_def)

section \<open>The gate against a second initialization\<close>

text \<open>
  Claim C2. Whenever the configuration already holds a non-empty \<open>ProjectRoot\<close>, \<open>Run\<close>
  ends in \<open>log.Fatal\<close> with the message that the project has already been initialized,
  and the world is exactly as it was: no prompt was printed, no input read, nothing
  created, no git process run.
\<close>

theorem already_initialized_rejected:
  "GetString s ''ProjectRoot'' \<noteq> [] \<Longrightarrow>
   Run e fl s = Some (Fatal (New ''Project has already been initialized''), s)"
  by (simp add: Run_def resolveConfig_def checkDirectory_def andThen_simps)

theorem already_initialized_rejected_witness:
  "GetString (viper_Set ''ProjectRoot'' ''/proj'' world0) ''ProjectRoot'' \<noteq> [] \<and>
   Run env0 flags0 (viper_Set ''ProjectRoot'' ''/proj'' world0)
     = Some (Fatal (New ''Project has already been initialized''), viper_Set ''ProjectRoot'' ''/proj'' world0)"
proof -
  have h: "GetString (viper_Set ''ProjectRoot'' ''/proj'' world0) ''ProjectRoot'' \<noteq> []"
    by (simp add: GetString_def viper_Set_def)
  show ?thesis using h already_initialized_rejected [OF h, of env0 flags0] by simp
qed

section \<open>The repository initializer\<close>

text \<open>
  Claim C3. When \<open>initRepo\<close> returns without error, the git processes it ran are
  \<open>git init\<close> followed by the ten pairs of \<open>git add\<close> and \<open>git commit\<close>, in this order
  and with these messages, whatever the exit status of each of them; when it returns an
  error, it ran at most \<open>git init\<close>.
\<close>

theorem initRepo_commit_sequence:
  "initRepo e s = (r, s') \<Longrightarrow>
   (r = None \<longrightarrow>
      git s' = git s @
        [[''init''],
         [''add'', ''.ccds''],
         [''commit'', ''-m'', ''Add ccds config directory''],
         [''add'', ''.gitignore'', ''LICENSE''],
         [''commit'', ''-m'', ''Add standard repo files''],
         [''add'', ''Dockerfile'', ''docker-compose.yml''],
         [''commit'', ''-m'', ''Add Docker configuration for Jupyter''],
         [''add'', ''data''],
         [''commit'', ''-m'', ''Add directory for storing datasets''],
         [''add'', ''docs''],
         [''commit'', ''-m'', ''Add directory for storing documentation''],
         [''add'', ''models''],
         [''commit'', ''-m'', ''Add directory for storing models''],
         [''add'', ''notebooks''],
         [''commit'', ''-m'', ''Add directory for storing notebooks''],
         [''add'', ''references''],
         [''commit'', ''-m'', ''Add directory for storing references''],
         [''add'', ''reports''],
         [''commit'', ''-m'', ''Add directory for storing reports''],
         [''add'', ''src''],
         [''commit'', ''-m'', ''Add directory for storing source code'']]) \<and>
   (r \<noteq> None \<longrightarrow> git s' = git s \<or> git s' = git s @ [[''init'']])"
  unfolding initRepo_def
  by (auto simp: git_commit_steps git_run_def split: sum.splits if_splits prod.splits bool.splits)

theorem initRepo_commit_sequence_witness:
  "initRepo env0 world0 = (None, snd (initRepo env0 world0)) \<and>
   git (snd (initRepo env0 world0)) = git world0 @
        [[''init''],
         [''add'', ''.ccds''],
         [''commit'', ''-m'', ''Add ccds config directory''],
         [''add'', ''.gitignore'', ''LICENSE''],
         [''commit'', ''-m'', ''Add standard repo files''],
         [''add'', ''Dockerfile'', ''docker-compose.yml''],
         [''commit'', ''-m'', ''Add Docker configuration for Jupyter''],
         [''add'', ''data''],
         [''commit'', ''-m'', ''Add directory for storing datasets''],
         [''add'', ''docs''],
         [''commit'', ''-m'', ''Add directory for storing documentation''],
         [''add'', ''models''],
         [''commit'', ''-m'', ''Add directory for storing models''],
         [''add'', ''notebooks''],
         [''commit'', ''-m'', ''Add directory for storing notebooks''],
         [''add'', ''references''],
         [''commit'', ''-m'', ''Add directory for storing references''],
         [''add'', ''reports''],
         [''commit'', ''-m'', ''Add directory for storing reports''],
         [''add'', ''src''],
         [''commit'', ''-m'', ''Add directory for storing source code'']]"
proof -
  have r: "resolve env0 ''./'' = [''proj'']"
    by (simp add: resolve_def env0_simps is_rooted_def)
  have ok: "initRepo env0 world0 = (None, snd (initRepo env0 world0))"
    by (simp add: initRepo_def ReadDir_def r node_at_def world0_def env0_simps git_run_def)
  show ?thesis using ok initRepo_commit_sequence [OF ok] by simp
qed

text \<open>
  Claim C9. With the tree root readable: a directory \<open>.git\<close> there makes \<open>initRepo\<close>
  return the error "git repo already exists" with the world untouched; without it, a git
  executable that is not found makes it return the error "git not found in path", again
  with the world untouched. A git process is run only when the root is readable, holds no
  directory \<open>.git\<close>, and the executable is found.
\<close>

theorem initRepo_guards:
  "(node_at (fs s) (resolve e ''./'') = Some Dir \<and> (resolve e ''./'' @ [''.git''], Dir) \<in> set (fs s) \<longrightarrow>
      initRepo e s = (Some (New ''git repo already exists''), s)) \<and>
   (node_at (fs s) (resolve e ''./'') = Some Dir \<and> (resolve e ''./'' @ [''.git''], Dir) \<notin> set (fs s)
      \<and> \<not> git_found e \<longrightarrow>
      initRepo e s = (Some (Wrap (Cause ''executable file not found'') ''git not found in path''), s)) \<and>
   (git (snd (initRepo e s)) \<noteq> git s \<longrightarrow>
      node_at (fs s) (resolve e ''./'') = Some Dir \<and> (resolve e ''./'' @ [''.git''], Dir) \<notin> set (fs s)
      \<and> git_found e)"
proof (cases "ReadDir e ''./'' s")
  case (Inl err)
  then have "node_at (fs s) (resolve e ''./'') \<noteq> Some Dir"
    using ReadDir_ok [of e "''./''" s] by auto
  with Inl show ?thesis by (simp add: initRepo_def)
next
  case (Inr entries)
  then have d: "node_at (fs s) (resolve e ''./'') = Some Dir"
    using ReadDir_ok [of e "''./''" s] by auto
  have m: "list_ex (\<lambda>(name, n). name = ''.git'' \<and> n = Dir) entries
      = ((resolve e ''./'' @ [''.git''], Dir) \<in> set (fs s))"
    by (rule ReadDir_has_entry [OF Inr])
  show ?thesis using Inr d m
    by (auto simp: initRepo_def git_run_def split: prod.splits bool.splits)
qed

theorem initRepo_guards_witness:
  "initRepo env0 (world0\<lparr>fs := [([''proj''], Dir), ([''proj'', ''.git''], Dir)]\<rparr>)
     = (Some (New ''git repo already exists''), world0\<lparr>fs := [([''proj''], Dir), ([''proj'', ''.git''], Dir)]\<rparr>) \<and>
   initRepo (env0\<lparr>git_found := False\<rparr>) world0
     = (Some (Wrap (Cause ''executable file not found'') ''git not found in path''), world0) \<and>
   git (snd (initRepo env0 world0)) \<noteq> git world0"
proof -
  have r: "resolve env0 ''./'' = [''proj'']" "resolve (env0\<lparr>git_found := False\<rparr>) ''./'' = [''proj'']"
    by (simp_all add: resolve_def env0_simps is_rooted_def)
  have a: "initRepo env0 (world0\<lparr>fs := [([''proj''], Dir), ([''proj'', ''.git''], Dir)]\<rparr>)
     = (Some (New ''git repo already exists''), world0\<lparr>fs := [([''proj''], Dir), ([''proj'', ''.git''], Dir)]\<rparr>)"
    using initRepo_guards [of "world0\<lparr>fs := [([''proj''], Dir), ([''proj'', ''.git''], Dir)]\<rparr>" env0]
    by (simp add: r node_at_def)
  have b: "initRepo (env0\<lparr>git_found := False\<rparr>) world0
     = (Some (Wrap (Cause ''executable file not found'') ''git not found in path''), world0)"
    using initRepo_guards [of world0 "env0\<lparr>git_found := False\<rparr>"]
    by (simp add: r node_at_def world0_def)
  have g: "git_found env0" "git_status env0 [''init'']"
    by (simp_all add: env0_simps)
  have c: "git (snd (initRepo env0 world0)) \<noteq> git world0"
    by (simp add: initRepo_def ReadDir_def r node_at_def world0_def g git_run_def git_commit_steps)
  show ?thesis using a b c by simp
qed

section \<open>The prompts\<close>

text \<open>
  Claim C10. In interactive mode, with no license given by flag, the license prompt is
  left if and only if some later read of standard input yields, after \<open>Chomp\<close>, an integer
  between 1 and the number of licenses. Once standard input is exhausted (every read is
  empty, and \<open>Chomp\<close> of the empty string is empty) the loop is never left, while the
  language loop on the same input returns the first supported language.
\<close>

theorem license_prompt_termination:
  assumes "\<not> nonInteractive fl" "license fl = []"
  shows "((resolveLicense e fl s \<noteq> None) =
            (\<exists>k. rpos s \<le> k \<and> valid_choice (length licenses) (Chomp e (reads e k)))) \<and>
         (Chomp e [] = [] \<and> (\<forall>k. rpos s \<le> k \<longrightarrow> reads e k = []) \<longrightarrow>
            resolveLicense e fl s = None \<and>
            (\<forall>l ls ch. \<exists>s'. languageLoop e fl (l # ls) ch s = Some (Inr l, s')))"
proof -
  let ?s = "print_menu licenses (Println [''Select your license: ''] s)"
  have rl: "resolveLicense e fl s = licenseLoop e fl licenses ''1, 2, 3'' ?s"
    using assms(2) by (simp add: resolveLicense_def choices_text_3)
  have rp: "rpos ?s = rpos s" by simp
  have iff: "(resolveLicense e fl s \<noteq> None) =
            (\<exists>k. rpos s \<le> k \<and> valid_choice (length licenses) (Chomp e (reads e k)))"
  proof
    assume "resolveLicense e fl s \<noteq> None"
    then obtain r where "licenseLoop e fl licenses ''1, 2, 3'' ?s = Some r"
      unfolding rl by blast
    from licenseLoop_returns [OF this assms(1)] rp
    show "\<exists>k. rpos s \<le> k \<and> valid_choice (length licenses) (Chomp e (reads e k))" by simp
  next
    assume "\<exists>k. rpos s \<le> k \<and> valid_choice (length licenses) (Chomp e (reads e k))"
    then obtain k where "rpos ?s \<le> k" "valid_choice (length licenses) (Chomp e (reads e k))"
      using rp by auto
    from licenseLoop_terminates [OF assms(1) this]
    show "resolveLicense e fl s \<noteq> None" unfolding rl .
  qed
  have eof: "resolveLicense e fl s = None \<and>
            (\<forall>l ls ch. \<exists>s'. languageLoop e fl (l # ls) ch s = Some (Inr l, s'))"
    if c: "Chomp e [] = []" and r: "\<forall>k. rpos s \<le> k \<longrightarrow> reads e k = []"
  proof -
    have "\<not> (\<exists>k. rpos s \<le> k \<and> valid_choice (length licenses) (Chomp e (reads e k)))"
      using c r by (auto simp: valid_choice_empty)
    then have n: "resolveLicense e fl s = None" using iff by blast
    have "Chomp e (reads e (rpos s)) = []" using c r by simp
    from languageLoop_empty [OF assms(1) this] n show ?thesis by blast
  qed
  show ?thesis using iff eof by blast
qed

theorem license_prompt_termination_witness:
  "\<not> nonInteractive (flags0\<lparr>license := []\<rparr>) \<and> license (flags0\<lparr>license := []\<rparr>) = [] \<and>
   resolveLicense env1 (flags0\<lparr>license := []\<rparr>) world0 \<noteq> None \<and>
   resolveLicense env0 (flags0\<lparr>license := []\<rparr>) world0 = None \<and>
   (\<exists>s'. languageLoop env0 (flags0\<lparr>license := []\<rparr>) [''python'', ''r''] ''1, 2'' world0
            = Some (Inr ''python'', s'))"
proof -
  have h: "\<not> nonInteractive (flags0\<lparr>license := []\<rparr>)" "license (flags0\<lparr>license := []\<rparr>) = []"
    by (simp_all add: flags0_def)
  have v: "rpos world0 \<le> 1 \<and> valid_choice (length licenses) (Chomp env1 (reads env1 1))"
    by (simp add: world0_def env1_def env0_simps valid_choice_def Atoi_def is_digit_def digit_val_def
        licenses_def newline_def)
  have c: "Chomp env0 [] = [] \<and> (\<forall>k. rpos world0 \<le> k \<longrightarrow> reads env0 k = [])"
    by (simp add: env0_simps)
  have a: "resolveLicense env1 (flags0\<lparr>license := []\<rparr>) world0 \<noteq> None"
    using license_prompt_termination [OF h, of env1 world0] v by blast
  have b: "resolveLicense env0 (flags0\<lparr>license := []\<rparr>) world0 = None \<and>
     (\<exists>s'. languageLoop env0 (flags0\<lparr>license := []\<rparr>) [''python'', ''r''] ''1, 2'' world0
            = Some (Inr ''python'', s'))"
    using license_prompt_termination [OF h, of env0 world0] c by blast
  show ?thesis using h a b by simp
qed

section \<open>The configuration resolver\<close>




text \<open>
  Claim C8. In non-interactive mode \<open>getInput\<close> reads nothing and ends the process in
  \<open>log.Fatal\<close> with the input-required error. A run with no license given by flag
  always ends in \<open>log.Fatal\<close>, with the file tree, the durable store and the git history
  as they were; when the project is not yet initialized and its directory can be read,
  the error is the input-required one.
\<close>

theorem non_interactive_input_required:
  assumes "nonInteractive fl"
  shows "getInput e fl s
           = (Inl (Fatal (New (newline # ''error: input required in non-interactive mode''))), s) \<and>
         (license fl = [] \<longrightarrow>
            (\<exists>err s'. Run e fl s = Some (Fatal err, s') \<and>
               fs s' = fs s \<and> store s' = store s \<and> git s' = git s \<and> rpos s' = rpos s \<and>
               (GetString s ''ProjectRoot'' = [] \<and> getwd_ok e \<and>
                node_at (fs s) (resolve e (cwd e)) = Some Dir \<longrightarrow>
                  err = New (newline # ''error: input required in non-interactive mode''))))"
  using assms
  by (auto simp: Run_def resolveConfig_def checkDirectory_def resolveAuthor_def resolveLicense_def
      getInput_def Getwd_def ReadDir_def Let_def andThen_simps confirmLoop_nonInteractive
      licenseLoop_nonInteractive choices_text_3 viper_Set_def)

theorem non_interactive_input_required_witness:
  "nonInteractive (flags0\<lparr>license := [], nonInteractive := True\<rparr>) \<and>
   license (flags0\<lparr>license := [], nonInteractive := True\<rparr>) = [] \<and>
   GetString world0 ''ProjectRoot'' = [] \<and> getwd_ok env0 \<and>
   node_at (fs world0) (resolve env0 (cwd env0)) = Some Dir \<and>
   (\<exists>s'. Run env0 (flags0\<lparr>license := [], nonInteractive := True\<rparr>) world0
       = Some (Fatal (New (newline # ''error: input required in non-interactive mode'')), s') \<and>
      fs s' = fs world0)"
proof -
  let ?fl = "flags0\<lparr>license := [], nonInteractive := True\<rparr>"
  have h: "nonInteractive ?fl" "license ?fl = []" by simp_all
  have r: "resolve env0 ''/proj'' = [''proj'']"
    by (simp add: resolve_def is_rooted_def)
  have g: "GetString world0 ''ProjectRoot'' = [] \<and> getwd_ok env0 \<and>
      node_at (fs world0) (resolve env0 (cwd env0)) = Some Dir"
    by (simp add: GetString_def world0_def env0_simps r node_at_def)
  from non_interactive_input_required [OF h(1), of env0 world0] h(2) g
  obtain s' where "Run env0 ?fl world0
       = Some (Fatal (New (newline # ''error: input required in non-interactive mode'')), s')"
    "fs s' = fs world0" by blast
  with h g show ?thesis by blast
qed

section \<open>The order of configuration and skeleton\<close>

text \<open>
  Claim C1, as the code has it. \<open>createSkeleton\<close> never changes the process-wide
  configuration; it leaves the durable store as it was when it fails, and writes the
  process-wide configuration to it when it succeeds: the write is its last step, after
  every directory, placeholder and template. In \<open>Run\<close>, whenever the file tree has
  changed, the process-wide configuration holds \<open>ProjectRoot\<close>, \<open>Author\<close>, \<open>License\<close>
  and \<open>PrimaryLanguage\<close>, and the durable store is either untouched or a copy of it.
\<close>

theorem config_store_written_last:
  "(\<forall>r s'. createSkeleton e s = (r, s') \<longrightarrow>
       viper s' = viper s \<and> (r \<noteq> None \<longrightarrow> store s' = store s) \<and> (r = None \<longrightarrow> store s' = Some (viper s))) \<and>
   (\<forall>oc s'. Run e fl s = Some (oc, s') \<and> fs s' \<noteq> fs s \<longrightarrow>
       (\<exists>a l g. viper s' = (viper s)(''ProjectRoot'' \<mapsto> cwd e, ''Author'' \<mapsto> a,
                               ''License'' \<mapsto> l, ''PrimaryLanguage'' \<mapsto> g)) \<and>
       (store s' = store s \<or> store s' = Some (viper s')))"
proof (rule conjI)
  show "\<forall>r s'. createSkeleton e s = (r, s') \<longrightarrow>
       viper s' = viper s \<and> (r \<noteq> None \<longrightarrow> store s' = store s) \<and> (r = None \<longrightarrow> store s' = Some (viper s))"
  proof (intro allI impI)
    fix r s' assume c: "createSkeleton e s = (r, s')"
    from createSkeleton_store [OF c]
    show "viper s' = viper s \<and> (r \<noteq> None \<longrightarrow> store s' = store s) \<and> (r = None \<longrightarrow> store s' = Some (viper s))"
      by (cases r) simp_all
  qed
next
  show "\<forall>oc s'. Run e fl s = Some (oc, s') \<and> fs s' \<noteq> fs s \<longrightarrow>
       (\<exists>a l g. viper s' = (viper s)(''ProjectRoot'' \<mapsto> cwd e, ''Author'' \<mapsto> a,
                               ''License'' \<mapsto> l, ''PrimaryLanguage'' \<mapsto> g)) \<and>
       (store s' = store s \<or> store s' = Some (viper s'))"
  proof (intro allI impI)
    fix oc s' assume r: "Run e fl s = Some (oc, s') \<and> fs s' \<noteq> fs s"
    then obtain x s1 where rc: "resolveConfig e fl s = Some (x, s1)"
      by (auto simp: Run_def split: option.splits)
    from resolveConfig_ok [OF rc] have d: "fs s1 = fs s" "store s1 = store s"
      by (simp_all add: stage_ok_def same_disk_def)
    obtain a l g where x: "x = Inr (a, l, g)"
      using r rc d by (cases x) (auto simp: Run_def)
    with r rc have sc: "scaffold e a l g s1 = (oc, s')" by (simp add: Run_def)
    from resolveConfig_viper rc x have v: "viper s1 = (viper s)(''ProjectRoot'' \<mapsto> cwd e)" by simp
    from scaffold_config [OF sc] v d
    have "viper s' = (viper s)(''ProjectRoot'' \<mapsto> cwd e, ''Author'' \<mapsto> a,
                               ''License'' \<mapsto> l, ''PrimaryLanguage'' \<mapsto> g)"
      "store s' = store s \<or> store s' = Some (viper s')" by auto
    then show "(\<exists>a l g. viper s' = (viper s)(''ProjectRoot'' \<mapsto> cwd e, ''Author'' \<mapsto> a,
                               ''License'' \<mapsto> l, ''PrimaryLanguage'' \<mapsto> g)) \<and>
       (store s' = store s \<or> store s' = Some (viper s'))" by blast
  qed
qed

theorem config_store_written_last_witness:
  "Run env0 flags0 world1 \<noteq> None \<and>
   fs (snd (the (Run env0 flags0 world1))) \<noteq> fs world1 \<and>
   (\<exists>a l g. viper (snd (the (Run env0 flags0 world1)))
       = (viper world1)(''ProjectRoot'' \<mapsto> cwd env0, ''Author'' \<mapsto> a, ''License'' \<mapsto> l,
                        ''PrimaryLanguage'' \<mapsto> g)) \<and>
   (store (snd (the (Run env0 flags0 world1))) = store world1 \<or>
    store (snd (the (Run env0 flags0 world1))) = Some (viper (snd (the (Run env0 flags0 world1)))))"
proof -
  obtain oc s' where r: "Run env0 flags0 world1 = Some (oc, s')"
    using Run_world1 by blast
  have d: "fs s' \<noteq> fs world1"
    using r unfolding Run_world1 by (auto simp: world1_def world0_def)
  from config_store_written_last [of env0 world1 flags0] r d
  have "(\<exists>a l g. viper s' = (viper world1)(''ProjectRoot'' \<mapsto> cwd env0, ''Author'' \<mapsto> a,
           ''License'' \<mapsto> l, ''PrimaryLanguage'' \<mapsto> g)) \<and>
        (store s' = store world1 \<or> store s' = Some (viper s'))" by blast
  with r d show ?thesis by simp
qed

text \<open>
  The claim as the spec states it fails. In \<open>/proj\<close>, where a file named \<open>data\<close> exists,
  the run creates the directory \<open>.ccds\<close> and then fails on \<open>data\<close>: a directory of the
  skeleton is on disk, and the durable store has never been written.
\<close>

theorem skeleton_before_store_counterexample:
  "Run env0 flags0 world1 \<noteq> None \<and>
   fst (the (Run env0 flags0 world1))
     = Fatal (Wrap (Cause ''not a directory'') ''failed to create directory data'') \<and>
   map_of (fs world1) [''proj'', ''.ccds''] = None \<and>
   map_of (fs (snd (the (Run env0 flags0 world1)))) [''proj'', ''.ccds''] = Some Dir \<and>
   store (snd (the (Run env0 flags0 world1))) = None"
  by (simp only: Run_world1, simp add: world1_def world0_def viper_Set_def log_Println_def)

section \<open>The license writer\<close>



section \<open>The manifest\<close>




section \<open>The skeleton applier\<close>

text \<open>
  Claim C4. Let \<open>createSkeleton\<close> have succeeded once, let each \<open>range\<close> loop visit every
  entry of its map exactly once, in whatever order, and let no two templates of the
  manifest have the same destination. Then a second \<open>createSkeleton\<close> on the resulting
  world, on the same machine and with any other order of visiting the maps, succeeds
  too, and every path holds after it exactly what it held before it; the durable store
  and the process-wide configuration are the same as well.
\<close>

theorem skeleton_idempotent:
  assumes first: "createSkeleton e s = (None, s1)"
    and dperm: "mset (range_dirs e directories) = mset directories"
               "mset (rd directories) = mset directories"
    and fperm: "mset (range_files e (files e (GetString s ''ProjectRoot'') (GetString s ''PrimaryLanguage'')))
                  = mset (files e (GetString s ''ProjectRoot'') (GetString s ''PrimaryLanguage''))"
               "mset (rf (files e (GetString s ''ProjectRoot'') (GetString s ''PrimaryLanguage'')))
                  = mset (files e (GetString s ''ProjectRoot'') (GetString s ''PrimaryLanguage''))"
    and nocoll: "distinct (map (\<lambda>x. resolve e (snd x))
                   (files e (GetString s ''ProjectRoot'') (GetString s ''PrimaryLanguage'')))"
  shows "\<exists>s2. createSkeleton (e\<lparr>range_dirs := rd, range_files := rf\<rparr>) s1 = (None, s2) \<and>
           map_of (fs s2) = map_of (fs s1) \<and> store s2 = store s1 \<and> viper s2 = viper s1"
proof -
  let ?e' = "e\<lparr>range_dirs := rd, range_files := rf\<rparr>"
  let ?F = "files e (GetString s ''ProjectRoot'') (GetString s ''PrimaryLanguage'')"
  let ?D1 = "range_dirs e directories" and ?D2 = "rd directories"
  let ?F1 = "range_files e ?F" and ?F2 = "rf ?F"
  let ?dest = "\<lambda>x. resolve e (snd x)"
  have sm: "same_machine e ?e'" by simp
  from createSkeleton_steps [OF first] obtain sa sb where
    a: "make_dirs e ?D1 s = (None, sa)" and b: "write_files e ?F1 sa = (None, sb)"
    and cw: "config_writable e" and s1: "s1 = sb\<lparr>store := Some (viper sb)\<rparr>" by blast
  have "mset ?D2 = mset ?D1" using dperm by simp
  then have setD: "set ?D2 = set ?D1" by (rule mset_eq_setD)
  have "mset ?F2 = mset ?F1" using fperm by simp
  then have setF: "set ?F2 = set ?F1" by (rule mset_eq_setD)
  note sets = setD setF
  have dist: "distinct (map ?dest ?F1)" "distinct (map ?dest ?F2)"
    using nocoll distinct_map_mset [OF fperm(1), of ?dest] distinct_map_mset [OF fperm(2), of ?dest]
    by simp_all
  have va: "viper sa = viper s"
    using only_fs_sel [OF make_dirs_only_fs [of s e ?D1]] a by simp
  have vb: "viper sb = viper sa"
    using only_fs_sel [OF write_files_only_fs [of sa e ?F1]] b by simp
  have gs: "GetString s1 k = GetString s k" for k
    by (simp add: GetString_def s1 va vb)
  from make_dirs_done [OF a] have
    a2: "dirs_done e ?D1 (fs sa)"
    and a4: "\<forall>d. (d, True) \<in> set ?D1 \<longrightarrow> map_of (fs sa) (gitkeep_path e d) = Some (File [])"
    by blast+
  from write_files_done [OF b] dist(1) have
    b1: "kind_kept (fs sa) (fs sb)" and b2: "files_done e ?F1 (fs sb)"
    and b3: "\<forall>q. q \<notin> ?dest ` set ?F1 \<longrightarrow> map_of (fs sb) q = map_of (fs sa) q"
    and b4: "\<forall>src dest. (src, dest) \<in> set ?F1 \<longrightarrow>
         (\<exists>body. render e src [] = Some body \<and> map_of (fs sb) (resolve e dest) = Some (File body))"
    by blast+
  have fs1: "fs s1 = fs sb" by (simp add: s1)
  have dd: "dirs_done e ?D1 (fs s1)" unfolding fs1 by (rule dirs_done_kept [OF a2 b1])
  from make_dirs_again [OF dd, of ?D2] sets(1) obtain sc where
    c: "make_dirs e ?D2 s1 = (None, sc)" and c1: "kind_kept (fs s1) (fs sc)"
    and c2: "\<forall>q. map_of (fs sc) q =
        (if q \<in> gitkeep_path e ` {d. (d, True) \<in> set ?D2} then Some (File []) else map_of (fs s1) q)"
    by auto
  have fd: "files_done e ?F1 (fs sc)"
    using files_done_kept [OF b2] c1 by (simp add: fs1)
  from write_files_again [OF fd, of ?F2] sets(2) obtain sd where
    d: "write_files e ?F2 sc = (None, sd)" by auto
  from write_files_done [OF d] dist(2) have
    d3: "\<forall>q. q \<notin> ?dest ` set ?F2 \<longrightarrow> map_of (fs sd) q = map_of (fs sc) q"
    and d4: "\<forall>src dest. (src, dest) \<in> set ?F2 \<longrightarrow>
         (\<exists>body. render e src [] = Some body \<and> map_of (fs sd) (resolve e dest) = Some (File body))"
    by blast+
  have vc: "viper sc = viper s1" "store sc = store s1"
    using only_fs_sel [OF make_dirs_only_fs [of s1 e ?D2]] c by simp_all
  have vd: "viper sd = viper sc" "store sd = store sc"
    using only_fs_sel [OF write_files_only_fs [of sc e ?F2]] d by simp_all
  let ?s2 = "sd\<lparr>store := Some (viper sd)\<rparr>"
  have run: "createSkeleton ?e' s1 = (None, ?s2)"
    using c d cw
    by (simp add: createSkeleton_def Let_def gs make_dirs_same [OF sm] write_files_same [OF sm]
        files_same [OF sm] WriteConfig_def)
  have same: "map_of (fs sd) q = map_of (fs sb) q" for q
  proof (cases "q \<in> ?dest ` set ?F2")
    case True
    then obtain src dest where m: "(src, dest) \<in> set ?F2" "q = resolve e dest" by auto
    from d4 m obtain body where x: "render e src [] = Some body" "map_of (fs sd) q = Some (File body)"
      by blast
    from m sets(2) have "(src, dest) \<in> set ?F1" by simp
    with b4 m(2) obtain body' where y: "render e src [] = Some body'" "map_of (fs sb) q = Some (File body')"
      by blast
    from x y show ?thesis by simp
  next
    case False
    with d3 have e1: "map_of (fs sd) q = map_of (fs sc) q" by blast
    from False sets(2) b3 have e2: "map_of (fs sb) q = map_of (fs sa) q" by simp
    show ?thesis
    proof (cases "q \<in> gitkeep_path e ` {d. (d, True) \<in> set ?D2}")
      case True
      then obtain dn where g: "(dn, True) \<in> set ?D1" "q = gitkeep_path e dn"
        using sets(1) by auto
      with a4 have "map_of (fs sa) q = Some (File [])" by blast
      with True c2 e1 e2 show ?thesis by simp
    next
      case False
      with c2 e1 show ?thesis by (simp add: fs1)
    qed
  qed
  have "map_of (fs ?s2) = map_of (fs s1)" using same by (simp add: fs1 fun_eq_iff)
  moreover have "store ?s2 = store s1" by (simp add: vd vc s1)
  moreover have "viper ?s2 = viper s1" by (simp add: vd vc)
  ultimately show ?thesis using run by blast
qed

theorem skeleton_idempotent_witness:
  "createSkeleton env0 world2 = (None, snd (createSkeleton env0 world2)) \<and>
   (\<exists>s2. createSkeleton (env0\<lparr>range_dirs := rev, range_files := rev\<rparr>) (snd (createSkeleton env0 world2))
            = (None, s2) \<and>
         map_of (fs s2) = map_of (fs (snd (createSkeleton env0 world2))) \<and>
         store s2 = store (snd (createSkeleton env0 world2)))"
proof -
  have first: "createSkeleton env0 world2 = (None, snd (createSkeleton env0 world2))"
    using first_ok by (simp add: prod_eq_iff)
  have d: "mset (range_dirs env0 directories) = mset directories"
    "mset (rev directories) = mset directories"
    by (simp_all add: env0_simps)
  let ?F = "files env0 (GetString world2 ''ProjectRoot'') (GetString world2 ''PrimaryLanguage'')"
  have f: "mset (range_files env0 ?F) = mset ?F" "mset (rev ?F) = mset ?F"
    by (simp_all add: env0_simps)
  have n: "distinct (map (\<lambda>x. resolve env0 (snd x)) ?F)"
    by (simp add: files_world2 resolve_def is_rooted_def env0_simps)
  from skeleton_idempotent [where rd = rev and rf = rev, OF first d f n]
  show ?thesis using first by blast
qed

end
